theory Spec2Isabelle
  imports Complex_Main "HOL-Library.Sublist"
begin

section \<open>video-tools/video.py: concatenation of video files\<close>

text \<open>
  The script reads its configuration into module-level variables (\<open>parse_arguments\<close>),
  checks the files (\<open>check_files\<close>) and then runs \<open>process\<close>: it probes the first
  input, opens one writer, copies every frame of every input to it and prints a summary.

  Modelling decisions.
  \<^item> The module-level variables \<open>_quiet\<close>, \<open>_input_files\<close>, ... are the fields of the
    record \<open>config\<close>: the namespace that \<open>argparse\<close> returned.  What \<open>argparse\<close>
    itself rejects (it exits with status 2) happens before any of the code below.
  \<^item> Everything outside the script is a field of the record \<open>world\<close>: the file
    system tests, what \<open>imageio.get_reader\<close> finds behind a path, whether the writer
    accepts a frame, and the successive readings of \<open>time.perf_counter()\<close>.  The world
    is a fixed function of the path: a run whose output file is also one of its inputs
    is outside the model.
  \<^item> Python floats are modelled as real numbers (no rounding, no NaN), Python integers
    as \<open>int\<close>, the frame counter, which only counts up from 0, as \<open>nat\<close>.
  \<^item> Every side effect is an event of the returned trace, in program order.  A call
    of \<open>iprint\<close> is the event \<open>Iprint\<close>; what reaches the terminal is \<open>printed\<close>.
  \<^item> Every exception is a value \<open>Inl e\<close>; nothing in the script catches one, so the
    first one ends the run.
\<close>

subsection \<open>Data\<close>

record config =
  quiet :: bool
  input_files :: "string list"
  output_file :: string
  overwrite :: bool
  framerate :: "real option"
  status :: "int option"
  preview :: "int option"

text \<open>The dictionary returned by \<open>reader.get_meta_data()\<close>; a missing key is \<open>None\<close>.\<close>

record metadata =
  meta_size :: "(nat \<times> nat) option"
  meta_fps :: "real option"
  meta_pix_fmt :: "string option"
  meta_codec :: "string option"

text \<open>
  What a reader gives: its metadata, the frames it yields in order, and whether the
  iteration raises after the last of them (a file that is malformed mid-stream).
\<close>

record 'f source =
  meta :: metadata
  frames :: "'f list"
  corrupt :: bool

record 'f world =
  is_file :: "string \<Rightarrow> bool"
  access_r :: "string \<Rightarrow> bool"
  path_exists :: "string \<Rightarrow> bool"
  parent :: "string \<Rightarrow> string"
  access_w :: "string \<Rightarrow> bool"
  get_reader :: "string \<Rightarrow> 'f source option"
  get_writer :: "string \<Rightarrow> bool"
  append_ok :: "'f list \<Rightarrow> 'f \<Rightarrow> bool"
  perf_counter :: "nat \<Rightarrow> real"

datatype error =
    AssertionError
  | IndexError
  | KeyError string
  | TypeError
  | ZeroDivisionError
  | SystemExit nat
  | ReaderOpenError string
  | ReadError string
  | WriterOpenError string
  | AppendError

text \<open>The arguments of the calls of \<open>iprint\<close> and \<open>eprint\<close>, before formatting.\<close>

datatype info =
    Version
  | Blank
  | InputFilesHeader
  | InputFile string
  | OutputFile string
  | Size "nat \<times> nat"
  | Framerate real
  | PixelFormat string
  | Codec string
  | Quality nat
  | Reading string
  | Status real nat real
  | Done
  | TotalDuration real
  | TotalImageCount nat
  | ProcessingRate real

datatype emsg =
    InputMissing string
  | InputUnreadable string
  | OutputExists string
  | OutputNotFile string
  | OutputDirUnwritable string

text \<open>The keyword arguments of \<open>imageio.get_writer\<close> (line 144).\<close>

record writer_args =
  wa_fps :: real
  wa_quality :: nat
  wa_codec :: string
  wa_pixelformat :: string

datatype 'f event =
    Iprint info
  | Eprint emsg
  | ReaderOpened string
  | ReaderClose string
  | WriterOpened string writer_args
  | AppendData 'f
  | WriterClose
  | PyplotFigure
  | Imshow 'f
  | Suptitle nat real

definition OUTPUT_QUALITY :: nat where
  "OUTPUT_QUALITY = 10"

subsection \<open>Truth values of optional numbers\<close>

text \<open>\<open>if x:\<close> on a float or an int that may be \<open>None\<close>: false for \<open>None\<close> and for zero.\<close>

definition truthy :: "'a::zero option \<Rightarrow> bool" where
  "truthy x = (case x of None \<Rightarrow> False | Some v \<Rightarrow> v \<noteq> 0)"

subsection \<open>The pixel format token (line 124)\<close>

text \<open>The character class \<open>[0-9A-Za-z]\<close>.\<close>

definition alnum :: "char \<Rightarrow> bool" where
  "alnum c =
     (let n = (of_char c :: nat) in
      (of_char CHR ''0'' \<le> n \<and> n \<le> of_char CHR ''9'') \<or>
      (of_char CHR ''A'' \<le> n \<and> n \<le> of_char CHR ''Z'') \<or>
      (of_char CHR ''a'' \<le> n \<and> n \<le> of_char CHR ''z''))"

text \<open>
  \<open>[0-9A-Za-z]+\<close> at the head of the text: greedy, at least one character; the result is
  the matched text (what \<open>match[0]\<close> returns), \<open>None\<close> when the first character is
  not in the class.
\<close>

fun match_class_plus :: "string \<Rightarrow> string option" where
  "match_class_plus [] = None"
| "match_class_plus (c # cs) =
     (if alnum c
      then (case match_class_plus cs of None \<Rightarrow> Some [c] | Some m \<Rightarrow> Some (c # m))
      else None)"

text \<open>
  \<open>re.search(r"^[0-9A-Za-z]+", s)\<close> tries the offsets of \<open>s\<close> from left to right.
  Without \<open>re.MULTILINE\<close> the anchor \<open>^\<close> holds at offset 0 only, which is the flag
  \<open>at_start\<close>.
\<close>

fun re_search :: "bool \<Rightarrow> string \<Rightarrow> string option" where
  "re_search at_start s =
     (case (if at_start then match_class_plus s else None) of
        Some m \<Rightarrow> Some m
      | None \<Rightarrow> (case s of [] \<Rightarrow> None | _ # t \<Rightarrow> re_search False t))"

subsection \<open>The probe of the first input (lines 114 to 126)\<close>

text \<open>The local variables \<open>size\<close>, \<open>framerate\<close>, \<open>pixelformat\<close> and \<open>codec\<close>.\<close>

record params =
  p_size :: "nat \<times> nat"
  p_framerate :: real
  p_pixelformat :: string
  p_codec :: string

definition probe :: "config \<Rightarrow> 'f world \<Rightarrow> 'f event list \<times> (error + params)" where
  "probe cfg w =
     (case input_files cfg of
        [] \<Rightarrow> ([], Inl IndexError)
      | p0 # _ \<Rightarrow>
        (case get_reader w p0 of
           None \<Rightarrow> ([], Inl (ReaderOpenError p0))
         | Some src \<Rightarrow>
           (case meta_size (meta src) of
              None \<Rightarrow> ([ReaderOpened p0], Inl (KeyError ''size''))
            | Some sz \<Rightarrow>
              (case (if truthy (framerate cfg) then framerate cfg else meta_fps (meta src)) of
                 None \<Rightarrow> ([ReaderOpened p0], Inl (KeyError ''fps''))
               | Some fr \<Rightarrow>
                 (case meta_pix_fmt (meta src) of
                    None \<Rightarrow> ([ReaderOpened p0], Inl (KeyError ''pix_fmt''))
                  | Some raw \<Rightarrow>
                    (case re_search True raw of
                       None \<Rightarrow> ([ReaderOpened p0], Inl TypeError)
                     | Some tok \<Rightarrow>
                       (case meta_codec (meta src) of
                          None \<Rightarrow> ([ReaderOpened p0], Inl (KeyError ''codec''))
                        | Some cd \<Rightarrow>
                          ([ReaderOpened p0, ReaderClose p0],
                           Inr \<lparr>p_size = sz, p_framerate = fr,
                                p_pixelformat = tok, p_codec = cd\<rparr>))))))))"

subsection \<open>The copying loop (lines 140 to 162)\<close>

text \<open>
  The local variables that change in the loop: the frame counter, the time of the last
  status line, the number of readings of \<open>time.perf_counter()\<close> taken so far, and the
  frames the writer has accepted.
\<close>

record 'f run_state =
  total_image_count :: nat
  last_status_time :: real
  ticks :: nat
  written :: "'f list"

text \<open>
  Lines 153 to 155.  The arguments of \<open>format\<close> are evaluated before \<open>iprint\<close> is
  called, so a framerate of zero raises before anything is printed.
\<close>

definition status_step ::
  "config \<Rightarrow> real \<Rightarrow> real \<Rightarrow> real \<Rightarrow> 'f run_state \<Rightarrow> 'f event list \<times> (error + 'f run_state)" where
  "status_step cfg fr start_time current_time s =
     (if truthy (status cfg) \<and>
         current_time - last_status_time s > real_of_int (the (status cfg))
      then (if fr = 0 then ([], Inl ZeroDivisionError)
            else ([Iprint (Status (current_time - start_time) (total_image_count s)
                            (real (total_image_count s) / fr))],
                  Inr (s\<lparr>last_status_time := current_time\<rparr>)))
      else ([], Inr s))"

text \<open>Lines 157 to 160: \<open>imshow\<close> comes before the title is formatted.\<close>

definition preview_step ::
  "config \<Rightarrow> real \<Rightarrow> 'f \<Rightarrow> 'f run_state \<Rightarrow> 'f event list \<times> (error + 'f run_state)" where
  "preview_step cfg fr f s =
     (if truthy (preview cfg) \<and> int (total_image_count s) mod the (preview cfg) = 0
      then (if fr = 0 then ([Imshow f], Inl ZeroDivisionError)
            else ([Imshow f,
                   Suptitle (total_image_count s) (real (total_image_count s) / fr)],
                  Inr s))
      else ([], Inr s))"

text \<open>The body of the inner loop, lines 150 to 161, for one frame.\<close>

definition frame_step ::
  "config \<Rightarrow> 'f world \<Rightarrow> real \<Rightarrow> real \<Rightarrow> 'f run_state \<Rightarrow> 'f \<Rightarrow>
   'f event list \<times> (error + 'f run_state)" where
  "frame_step cfg w fr start_time s f =
     (if append_ok w (written s) f
      then (let current_time = perf_counter w (ticks s);
                s1 = s\<lparr>written := written s @ [f], ticks := Suc (ticks s)\<rparr>
            in case status_step cfg fr start_time current_time s1 of
                 (ev1, Inl e) \<Rightarrow> (AppendData f # ev1, Inl e)
               | (ev1, Inr s2) \<Rightarrow>
                 (case preview_step cfg fr f s2 of
                    (ev2, Inl e) \<Rightarrow> (AppendData f # ev1 @ ev2, Inl e)
                  | (ev2, Inr s3) \<Rightarrow>
                    (AppendData f # ev1 @ ev2,
                     Inr (s3\<lparr>total_image_count := Suc (total_image_count s3)\<rparr>))))
      else ([], Inl AppendError))"

text \<open>\<open>for frame in reader\<close> over the frames the reader yields.\<close>

fun read_frames ::
  "config \<Rightarrow> 'f world \<Rightarrow> real \<Rightarrow> real \<Rightarrow> 'f run_state \<Rightarrow> 'f list \<Rightarrow>
   'f event list \<times> (error + 'f run_state)" where
  "read_frames cfg w fr start_time s [] = ([], Inr s)"
| "read_frames cfg w fr start_time s (f # fs) =
     (case frame_step cfg w fr start_time s f of
        (ev, Inl e) \<Rightarrow> (ev, Inl e)
      | (ev, Inr s') \<Rightarrow>
        (case read_frames cfg w fr start_time s' fs of
           (ev', r) \<Rightarrow> (ev @ ev', r)))"

text \<open>The body of the outer loop, lines 147 to 162, for one input file.\<close>

definition read_file ::
  "config \<Rightarrow> 'f world \<Rightarrow> real \<Rightarrow> real \<Rightarrow> 'f run_state \<Rightarrow> string \<Rightarrow>
   'f event list \<times> (error + 'f run_state)" where
  "read_file cfg w fr start_time s p =
     (case get_reader w p of
        None \<Rightarrow> ([Iprint (Reading p)], Inl (ReaderOpenError p))
      | Some src \<Rightarrow>
        (case read_frames cfg w fr start_time s (frames src) of
           (ev, Inl e) \<Rightarrow> (Iprint (Reading p) # ReaderOpened p # ev, Inl e)
         | (ev, Inr s') \<Rightarrow>
           (if corrupt src
            then (Iprint (Reading p) # ReaderOpened p # ev, Inl (ReadError p))
            else (Iprint (Reading p) # ReaderOpened p # ev @ [ReaderClose p], Inr s'))))"

fun read_files ::
  "config \<Rightarrow> 'f world \<Rightarrow> real \<Rightarrow> real \<Rightarrow> 'f run_state \<Rightarrow> string list \<Rightarrow>
   'f event list \<times> (error + 'f run_state)" where
  "read_files cfg w fr start_time s [] = ([], Inr s)"
| "read_files cfg w fr start_time s (p # ps) =
     (case read_file cfg w fr start_time s p of
        (ev, Inl e) \<Rightarrow> (ev, Inl e)
      | (ev, Inr s') \<Rightarrow>
        (case read_files cfg w fr start_time s' ps of
           (ev', r) \<Rightarrow> (ev @ ev', r)))"

subsection \<open>\<open>process\<close> (lines 113 to 173)\<close>

definition report_params :: "config \<Rightarrow> params \<Rightarrow> 'f event list" where
  "report_params cfg prm =
     [Iprint (Size (p_size prm)), Iprint (Framerate (p_framerate prm)),
      Iprint (PixelFormat (p_pixelformat prm)), Iprint (Codec (p_codec prm)),
      Iprint (Quality OUTPUT_QUALITY), Iprint Blank] @
     (if truthy (preview cfg) then [PyplotFigure] else [])"

definition open_writer :: "config \<Rightarrow> params \<Rightarrow> 'f event" where
  "open_writer cfg prm =
     WriterOpened (output_file cfg)
       \<lparr>wa_fps = p_framerate prm, wa_quality = OUTPUT_QUALITY,
        wa_codec = p_codec prm, wa_pixelformat = p_pixelformat prm\<rparr>"

text \<open>
  Lines 163 to 173.  The rate is computed after the first three lines of the summary
  are printed; an elapsed time of zero raises there.
\<close>

definition finish ::
  "'f world \<Rightarrow> real \<Rightarrow> 'f run_state \<Rightarrow> 'f event list \<times> (error + 'f run_state)" where
  "finish w start_time s =
     (let end_time = perf_counter w (ticks s);
          total_time = end_time - start_time;
          ev = [Iprint Blank, WriterClose, Iprint Done, Iprint (TotalDuration total_time),
                Iprint (TotalImageCount (total_image_count s))]
      in if total_time = 0 then (ev, Inl ZeroDivisionError)
         else (ev @ [Iprint (ProcessingRate (real (total_image_count s) / total_time))],
               Inr (s\<lparr>ticks := Suc (ticks s)\<rparr>)))"

definition process :: "config \<Rightarrow> 'f world \<Rightarrow> 'f event list \<times> (error + 'f run_state)" where
  "process cfg w =
     (case probe cfg w of
        (ev0, Inl e) \<Rightarrow> (ev0, Inl e)
      | (ev0, Inr prm) \<Rightarrow>
        (let start_time = perf_counter w 0;
             s0 = \<lparr>total_image_count = 0, last_status_time = start_time,
                   ticks = 1, written = []\<rparr>
         in if get_writer w (output_file cfg)
            then (case read_files cfg w (p_framerate prm) start_time s0 (input_files cfg) of
                    (ev1, Inl e) \<Rightarrow>
                      (ev0 @ report_params cfg prm @ open_writer cfg prm # ev1, Inl e)
                  | (ev1, Inr s) \<Rightarrow>
                    (case finish w start_time s of
                       (ev2, r) \<Rightarrow>
                         (ev0 @ report_params cfg prm @ open_writer cfg prm # ev1 @ ev2, r)))
            else (ev0 @ report_params cfg prm,
                  Inl (WriterOpenError (output_file cfg)))))"

subsection \<open>\<open>parse_arguments\<close>, \<open>check_files\<close> and \<open>main\<close>\<close>

text \<open>
  The assertions of lines 67 to 73 on the parsed namespace.  \<open>_output_file\<close> is a
  required option, so it is never \<open>None\<close>.  There is no assertion on \<open>_status\<close>.
\<close>

definition parse_arguments :: "config \<Rightarrow> error + unit" where
  "parse_arguments cfg =
     (if length (input_files cfg) > 0
      then (if truthy (framerate cfg) \<and> the (framerate cfg) \<le> 0 then Inl AssertionError
            else if truthy (preview cfg) \<and> the (preview cfg) \<le> 0 then Inl AssertionError
            else Inr ())
      else Inl AssertionError)"

text \<open>The loop of lines 84 to 92; the boolean is false when the function has returned.\<close>

fun check_inputs :: "'f world \<Rightarrow> string list \<Rightarrow> 'f event list \<times> bool" where
  "check_inputs w [] = ([], True)"
| "check_inputs w (p # ps) =
     (if is_file w p
      then (if access_r w p
            then (case check_inputs w ps of (ev, ok) \<Rightarrow> (Iprint (InputFile p) # ev, ok))
            else ([Iprint (InputFile p), Eprint (InputUnreadable p)], False))
      else ([Iprint (InputFile p), Eprint (InputMissing p)], False))"

text \<open>Lines 96 to 110.\<close>

definition check_output :: "config \<Rightarrow> 'f world \<Rightarrow> 'f event list \<times> bool" where
  "check_output cfg w =
     (let out = output_file cfg in
      if path_exists w out \<and> \<not> overwrite cfg
        then ([Iprint (OutputFile out), Eprint (OutputExists out)], False)
      else if path_exists w out \<and> \<not> is_file w out
        then ([Iprint (OutputFile out), Eprint (OutputNotFile out)], False)
      else if access_w w (parent w out)
        then ([Iprint (OutputFile out), Iprint Blank], True)
      else ([Iprint (OutputFile out), Eprint (OutputDirUnwritable (parent w out))], False))"

definition check_files :: "config \<Rightarrow> 'f world \<Rightarrow> 'f event list \<times> bool" where
  "check_files cfg w =
     (case check_inputs w (input_files cfg) of
        (ev, False) \<Rightarrow> (Iprint InputFilesHeader # ev, False)
      | (ev, True) \<Rightarrow>
        (case check_output cfg w of
           (ev', ok) \<Rightarrow> (Iprint InputFilesHeader # ev @ Iprint Blank # ev', ok)))"

text \<open>\<open>sys.exit(1)\<close> raises \<open>SystemExit(1)\<close>.\<close>

definition main :: "config \<Rightarrow> 'f world \<Rightarrow> 'f event list \<times> (error + 'f run_state)" where
  "main cfg w =
     (case parse_arguments cfg of
        Inl e \<Rightarrow> ([], Inl e)
      | Inr _ \<Rightarrow>
        (case check_files cfg w of
           (ev, False) \<Rightarrow> (Iprint Version # Iprint Blank # ev, Inl (SystemExit 1))
         | (ev, True) \<Rightarrow>
           (case process cfg w of
              (ev', r) \<Rightarrow> (Iprint Version # Iprint Blank # ev @ ev', r))))"

text \<open>
  The exit status of the interpreter: the argument of \<open>sys.exit\<close>, 1 after any other
  uncaught exception, 0 when \<open>main\<close> returns.
\<close>

definition exit_code :: "error + 'a \<Rightarrow> nat" where
  "exit_code r = (case r of Inl (SystemExit n) \<Rightarrow> n | Inl _ \<Rightarrow> 1 | Inr _ \<Rightarrow> 0)"

text \<open>\<open>iprint\<close> prints unless \<open>_quiet\<close> is set; \<open>printed\<close> is what it lets through.\<close>

definition printed :: "config \<Rightarrow> 'f event list \<Rightarrow> info list" where
  "printed cfg tr = (if quiet cfg then [] else [i. Iprint i \<leftarrow> tr])"

subsection \<open>Reading a trace\<close>

text \<open>The frames handed to \<open>writer.append_data\<close>, in the order of the calls.\<close>

fun appended :: "'f event list \<Rightarrow> 'f list" where
  "appended [] = []"
| "appended (AppendData f # tr) = f # appended tr"
| "appended (_ # tr) = appended tr"

fun is_print :: "'f event \<Rightarrow> bool" where
  "is_print (Iprint _) = True"
| "is_print (Eprint _) = True"
| "is_print _ = False"

fun is_preview :: "'f event \<Rightarrow> bool" where
  "is_preview (Imshow _) = True"
| "is_preview (Suptitle _ _) = True"
| "is_preview _ = False"

fun is_status :: "'f event \<Rightarrow> bool" where
  "is_status (Iprint (Status _ _ _)) = True"
| "is_status _ = False"

fun is_append :: "'f event \<Rightarrow> bool" where
  "is_append (AppendData _) = True"
| "is_append _ = False"

fun is_writer_open :: "'f event \<Rightarrow> bool" where
  "is_writer_open (WriterOpened _ _) = True"
| "is_writer_open _ = False"

text \<open>
  The readers that are open after an event, given those open before it: \<open>get_reader\<close>
  adds one, \<open>reader.close()\<close> removes it.
\<close>

fun track :: "'f event \<Rightarrow> string list \<Rightarrow> string list" where
  "track (ReaderOpened p) rs = p # rs"
| "track (ReaderClose p) rs = remove1 p rs"
| "track _ rs = rs"

definition open_readers :: "'f event list \<Rightarrow> string list" where
  "open_readers tr = fold track tr []"

text \<open>The frame sequence of an input list: the frames of each input, in list order.\<close>

definition input_frames :: "'f world \<Rightarrow> string list \<Rightarrow> 'f list" where
  "input_frames w ps = concat (map (\<lambda>p. frames (the (get_reader w p))) ps)"

text \<open>
  The status lines of a trace, read from left to right with the number \<open>k\<close> of frames
  appended so far: \<open>status_lag\<close> says that every status line reports \<open>k - 1\<close> frames
  and that count divided by the framerate; \<open>spaced\<close> says that every status line comes
  more than \<open>S\<close> after the one before it (after \<open>t0\<close> for the first);
  \<open>last_status\<close> is the time of the last one.
\<close>

fun status_lag :: "nat \<Rightarrow> real \<Rightarrow> 'f event list \<Rightarrow> bool" where
  "status_lag k fr [] = True"
| "status_lag k fr (AppendData f # tr) = status_lag (Suc k) fr tr"
| "status_lag k fr (Iprint (Status t n v) # tr) =
     (Suc n = k \<and> v = real n / fr \<and> status_lag k fr tr)"
| "status_lag k fr (_ # tr) = status_lag k fr tr"

fun last_status :: "real \<Rightarrow> 'f event list \<Rightarrow> real" where
  "last_status t0 [] = t0"
| "last_status t0 (Iprint (Status t n v) # tr) = last_status t tr"
| "last_status t0 (_ # tr) = last_status t0 tr"

fun spaced :: "real \<Rightarrow> real \<Rightarrow> 'f event list \<Rightarrow> bool" where
  "spaced S t0 [] = True"
| "spaced S t0 (Iprint (Status t n v) # tr) = (t - t0 > S \<and> spaced S t tr)"
| "spaced S t0 (_ # tr) = spaced S t0 tr"

text \<open>
  What holds of the status lines of a piece of a run that starts in the state \<open>s\<close> and
  ends with the result \<open>r\<close>.
\<close>

definition status_inv ::
  "config \<Rightarrow> real \<Rightarrow> real \<Rightarrow> 'f run_state \<Rightarrow> 'f event list \<Rightarrow> error + 'f run_state \<Rightarrow> bool" where
  "status_inv cfg fr st s ev r =
     (status_lag (total_image_count s) fr ev \<and>
      spaced (real_of_int (the (status cfg))) (last_status_time s - st) ev \<and>
      (truthy (status cfg) \<or> filter is_status ev = []) \<and>
      (case r of
         Inr s' \<Rightarrow>
           last_status_time s' - st = last_status (last_status_time s - st) ev \<and>
           total_image_count s' = total_image_count s + length (appended ev)
       | Inl _ \<Rightarrow> True))"

text \<open>
  What the preview shows for the frame \<open>f\<close> when the counter is \<open>i\<close>: the condition
  and the two calls of lines 157 to 159.
\<close>

definition preview_of :: "config \<Rightarrow> real \<Rightarrow> nat \<times> 'f \<Rightarrow> 'f event list" where
  "preview_of cfg fr = (\<lambda>(i, f).
     if truthy (preview cfg) \<and> int i mod the (preview cfg) = 0
     then [Imshow f, Suptitle i (real i / fr)] else [])"

definition is_append_or_status :: "'f event \<Rightarrow> bool" where
  "is_append_or_status e = (is_append e \<or> is_status e)"

text \<open>
  After one input file: on return the reader is closed again; after an error the reader
  is still open, unless it is \<open>get_reader\<close> that failed.
\<close>

definition left_open :: "string \<Rightarrow> error \<Rightarrow> string list \<Rightarrow> string list \<Rightarrow> bool" where
  "left_open p e rs rs' =
     (if e = ReaderOpenError p then rs' = rs
      else (e = ReadError p \<or> e = AppendError \<or> e = ZeroDivisionError) \<and> rs' = p # rs)"

subsection \<open>Concrete inputs\<close>

text \<open>
  Two small clips with natural numbers for frames, a file system that holds them under
  the names \<open>a\<close> and \<open>b\<close>, and a clock that advances two seconds per reading.
\<close>

definition clip_a :: "nat source" where
  "clip_a =
     \<lparr>meta = \<lparr>meta_size = Some (640, 480), meta_fps = Some 30,
              meta_pix_fmt = Some ''yuv420p(tv)'', meta_codec = Some ''h264''\<rparr>,
      frames = [10, 11, 12], corrupt = False\<rparr>"

definition clip_b :: "nat source" where
  "clip_b =
     \<lparr>meta = \<lparr>meta_size = Some (320, 240), meta_fps = Some 25,
              meta_pix_fmt = Some ''rgb24'', meta_codec = Some ''mpeg4''\<rparr>,
      frames = [20, 21], corrupt = False\<rparr>"

definition disk :: "nat world" where
  "disk =
     \<lparr>is_file = (\<lambda>p. p = ''a'' \<or> p = ''b''),
      access_r = (\<lambda>p. True),
      path_exists = (\<lambda>p. p = ''a'' \<or> p = ''b''),
      parent = (\<lambda>p. ''.''),
      access_w = (\<lambda>p. True),
      get_reader = (\<lambda>p. if p = ''a'' then Some clip_a
                         else if p = ''b'' then Some clip_b else None),
      get_writer = (\<lambda>p. True),
      append_ok = (\<lambda>fs f. True),
      perf_counter = (\<lambda>n. 2 * real n)\<rparr>"

definition args_ab :: config where
  "args_ab =
     \<lparr>quiet = False, input_files = [''a'', ''b''], output_file = ''o'', overwrite = False,
      framerate = None, status = Some 1, preview = Some 2\<rparr>"

text \<open>An output path that exists, and a first input whose pixel format is not a word.\<close>

definition args_taken :: config where
  "args_taken = args_ab\<lparr>input_files := [''a''], output_file := ''b''\<rparr>"

definition clip_odd :: "nat source" where
  "clip_odd = clip_a\<lparr>meta := (meta clip_a)\<lparr>meta_pix_fmt := Some ''(tv)''\<rparr>\<rparr>"

definition disk_odd :: "nat world" where
  "disk_odd = disk\<lparr>get_reader := (\<lambda>p. if p = ''a'' then Some clip_odd else None)\<rparr>"

text \<open>
  The first clip with another picture size; the second clip malformed after its last
  frame; a writer that rejects the frames of the second clip; a clock that advances a
  hundredth of a second per reading; a negative status interval.
\<close>

definition clip_hd :: "nat source" where
  "clip_hd = clip_a\<lparr>meta := (meta clip_a)\<lparr>meta_size := Some (1920, 1080)\<rparr>\<rparr>"

definition disk_hd :: "nat world" where
  "disk_hd = disk\<lparr>get_reader := (\<lambda>p. if p = ''a'' then Some clip_hd
                                     else if p = ''b'' then Some clip_b else None)\<rparr>"

definition clip_broken :: "nat source" where
  "clip_broken = clip_b\<lparr>corrupt := True\<rparr>"

definition disk_broken :: "nat world" where
  "disk_broken = disk\<lparr>get_reader := (\<lambda>p. if p = ''a'' then Some clip_a
                                     else if p = ''b'' then Some clip_broken else None)\<rparr>"

definition disk_strict :: "nat world" where
  "disk_strict = disk\<lparr>append_ok := (\<lambda>fs f. f < 20)\<rparr>"

definition disk_fast :: "nat world" where
  "disk_fast = disk\<lparr>perf_counter := (\<lambda>n. real n / 100)\<rparr>"

definition args_neg :: config where
  "args_neg = args_ab\<lparr>status := Some (- 1), preview := None\<rparr>"

section \<open>Properties\<close>

subsection \<open>Auxiliary facts\<close>

lemmas run_defs =
  main_def parse_arguments_def truthy_def check_files_def check_output_def process_def
  probe_def alnum_def report_params_def open_writer_def read_file_def frame_step_def
  status_step_def preview_step_def finish_def OUTPUT_QUALITY_def re_search.simps Let_def

lemmas input_defs = args_ab_def disk_def clip_a_def clip_b_def

declare re_search.simps [simp del]

lemma appended_append: "appended (a @ b) = appended a @ appended b"
  by (induction a rule: appended.induct) simp_all

lemma match_class_plus_takeWhile:
  "match_class_plus s = (if takeWhile alnum s = [] then None else Some (takeWhile alnum s))"
  by (induction s) auto

lemma re_search_False: "re_search False s = None"
  by (induction s) (simp_all add: re_search.simps)

lemma re_search_True: "re_search True s = match_class_plus s"
  by (subst re_search.simps) (simp add: re_search_False split: option.splits list.splits)

lemma re_search_takeWhile:
  "re_search True s = (if takeWhile alnum s = [] then None else Some (takeWhile alnum s))"
  by (simp add: re_search_True match_class_plus_takeWhile)

lemma status_step_Inr:
  "status_step cfg fr st ct s = (ev, Inr s') \<Longrightarrow>
     written s' = written s \<and> total_image_count s' = total_image_count s \<and>
     ticks s' = ticks s \<and> appended ev = [] \<and> filter is_preview ev = []"
  by (auto simp: status_step_def split: if_splits)

lemma preview_step_Inr:
  "preview_step cfg fr f s = (ev, Inr s') \<Longrightarrow>
     s' = s \<and> appended ev = [] \<and>
     filter is_preview ev =
       (if truthy (preview cfg) \<and> int (total_image_count s) mod the (preview cfg) = 0
        then [Imshow f, Suptitle (total_image_count s) (real (total_image_count s) / fr)]
        else [])"
  by (auto simp: preview_step_def split: if_splits)

lemma frame_step_Inr:
  assumes "frame_step cfg w fr st s f = (ev, Inr s')"
  shows "written s' = written s @ [f]"
    and "total_image_count s' = Suc (total_image_count s)"
    and "ticks s' = Suc (ticks s)"
    and "appended ev = [f]"
    and "filter is_preview ev =
       (if truthy (preview cfg) \<and> int (total_image_count s) mod the (preview cfg) = 0
        then [Imshow f, Suptitle (total_image_count s) (real (total_image_count s) / fr)]
        else [])"
  using assms
  by (auto simp: frame_step_def Let_def appended_append
           split: if_splits prod.splits sum.splits
           dest!: status_step_Inr preview_step_Inr)

lemma read_frames_Inr:
  "read_frames cfg w fr st s fs = (ev, Inr s') \<Longrightarrow>
     written s' = written s @ fs \<and>
     total_image_count s' = total_image_count s + length fs \<and>
     ticks s' = ticks s + length fs \<and>
     appended ev = fs"
proof (induction fs arbitrary: s ev)
  case Nil
  then show ?case by simp
next
  case (Cons f fs)
  from Cons.prems obtain ev1 s1 ev2 where
    step: "frame_step cfg w fr st s f = (ev1, Inr s1)" and
    rest: "read_frames cfg w fr st s1 fs = (ev2, Inr s')" and
    ev: "ev = ev1 @ ev2"
    by (auto split: prod.splits sum.splits)
  from Cons.IH [OF rest] frame_step_Inr(1-4) [OF step] ev
  show ?case by (simp add: appended_append)
qed

lemma read_file_Inr:
  assumes "read_file cfg w fr st s p = (ev, Inr s')"
  shows "written s' = written s @ frames (the (get_reader w p))"
    and "total_image_count s' = total_image_count s + length (frames (the (get_reader w p)))"
    and "ticks s' = ticks s + length (frames (the (get_reader w p)))"
    and "appended ev = frames (the (get_reader w p))"
  using assms
  by (auto simp: read_file_def appended_append
           split: option.splits prod.splits sum.splits if_splits
           dest!: read_frames_Inr)

lemma read_files_Inr:
  "read_files cfg w fr st s ps = (ev, Inr s') \<Longrightarrow>
     written s' = written s @ input_frames w ps \<and>
     total_image_count s' = total_image_count s + length (input_frames w ps) \<and>
     ticks s' = ticks s + length (input_frames w ps) \<and>
     appended ev = input_frames w ps"
proof (induction ps arbitrary: s ev)
  case Nil
  then show ?case by (simp add: input_frames_def)
next
  case (Cons p ps)
  from Cons.prems obtain ev1 s1 ev2 where
    one: "read_file cfg w fr st s p = (ev1, Inr s1)" and
    rest: "read_files cfg w fr st s1 ps = (ev2, Inr s')" and
    ev: "ev = ev1 @ ev2"
    by (auto split: prod.splits sum.splits)
  from Cons.IH [OF rest] read_file_Inr [OF one] ev
  show ?case by (simp add: appended_append input_frames_def)
qed

lemma appended_probe: "probe cfg w = (ev, r) \<Longrightarrow> appended ev = []"
  by (auto simp: probe_def split: list.splits option.splits if_splits)

lemma appended_report_params: "appended (report_params cfg prm) = []"
  by (simp add: report_params_def)

lemma finish_Inr:
  assumes "finish w st s = (ev, Inr s')"
  shows "written s' = written s" and "total_image_count s' = total_image_count s"
    and "appended ev = []"
    and "perf_counter w (ticks s) - st \<noteq> 0"
    and "ev = [Iprint Blank, WriterClose, Iprint Done,
           Iprint (TotalDuration (perf_counter w (ticks s) - st)),
           Iprint (TotalImageCount (total_image_count s)),
           Iprint (ProcessingRate
             (real (total_image_count s) / (perf_counter w (ticks s) - st)))]"
  using assms by (auto simp: finish_def Let_def split: if_splits)

text \<open>The parts of a run of \<open>process\<close> that returns.\<close>

lemma process_Inr:
  assumes "process cfg w = (tr, Inr s)"
  obtains ev0 prm ev1 s1 ev2 where
    "probe cfg w = (ev0, Inr prm)"
    "get_writer w (output_file cfg)"
    "read_files cfg w (p_framerate prm) (perf_counter w 0)
        \<lparr>total_image_count = 0, last_status_time = perf_counter w 0, ticks = 1, written = []\<rparr>
        (input_files cfg) = (ev1, Inr s1)"
    "finish w (perf_counter w 0) s1 = (ev2, Inr s)"
    "tr = ev0 @ report_params cfg prm @ open_writer cfg prm # ev1 @ ev2"
  using assms
  by (auto simp: process_def Let_def split: prod.splits sum.splits if_splits)

text \<open>The run of \<open>process\<close> on the two clips.\<close>

lemma process_ab:
  "process args_ab disk =
    ([ReaderOpened ''a'', ReaderClose ''a'', Iprint (Size (640, 480)), Iprint (Framerate 30),
      Iprint (PixelFormat ''yuv420p''), Iprint (Codec ''h264''), Iprint (Quality 10),
      Iprint Blank, PyplotFigure,
      WriterOpened ''o''
        \<lparr>wa_fps = 30, wa_quality = 10, wa_codec = ''h264'', wa_pixelformat = ''yuv420p''\<rparr>,
      Iprint (Reading ''a''), ReaderOpened ''a'',
      AppendData 10, Iprint (Status 2 0 0), Imshow 10, Suptitle 0 0,
      AppendData 11, Iprint (Status 4 1 (1 / 30)),
      AppendData 12, Iprint (Status 6 2 (1 / 15)), Imshow 12, Suptitle 2 (1 / 15),
      ReaderClose ''a'', Iprint (Reading ''b''), ReaderOpened ''b'',
      AppendData 20, Iprint (Status 8 3 (1 / 10)),
      AppendData 21, Iprint (Status 10 4 (2 / 15)), Imshow 21, Suptitle 4 (2 / 15),
      ReaderClose ''b'', Iprint Blank, WriterClose, Iprint Done,
      Iprint (TotalDuration 12), Iprint (TotalImageCount 5), Iprint (ProcessingRate (5 / 12))],
     Inr \<lparr>total_image_count = 5, last_status_time = 10, ticks = 7,
          written = [10, 11, 12, 20, 21]\<rparr>)"
  by (simp add: run_defs input_defs)

subsection \<open>Frame order\<close>

text \<open>
  Claim C1.  When \<open>process\<close> returns, the frames handed to the writer, in the order of
  the calls of \<open>append_data\<close>, are the frames of the first input in their order, then
  those of the second, and so on through the input list: nothing is read twice, left
  out or moved.  Both the writer's contents and the calls in the trace say so.
\<close>

theorem concat_preserves_frame_order:
  assumes "process cfg w = (tr, Inr s)"
  shows "written s = input_frames w (input_files cfg) \<and>
         appended tr = input_frames w (input_files cfg)"
proof -
  from assms obtain ev0 prm ev1 s1 ev2 where
    pr: "probe cfg w = (ev0, Inr prm)" and
    rf: "read_files cfg w (p_framerate prm) (perf_counter w 0)
        \<lparr>total_image_count = 0, last_status_time = perf_counter w 0, ticks = 1, written = []\<rparr>
        (input_files cfg) = (ev1, Inr s1)" and
    fi: "finish w (perf_counter w 0) s1 = (ev2, Inr s)" and
    tr: "tr = ev0 @ report_params cfg prm @ open_writer cfg prm # ev1 @ ev2"
    by (rule process_Inr)
  from read_files_Inr [OF rf] finish_Inr(1) [OF fi]
  have "written s = input_frames w (input_files cfg)" by simp
  moreover
  from read_files_Inr [OF rf] finish_Inr(3) [OF fi] appended_probe [OF pr] tr
  have "appended tr = input_frames w (input_files cfg)"
    by (simp add: appended_append appended_report_params open_writer_def)
  ultimately show ?thesis by simp
qed

theorem concat_preserves_frame_order_witness:
  "snd (process args_ab disk) =
     Inr \<lparr>total_image_count = 5, last_status_time = 10, ticks = 7,
          written = [10, 11, 12, 20, 21]\<rparr> \<and>
   input_frames disk (input_files args_ab) = [10, 11, 12, 20, 21] \<and>
   appended (fst (process args_ab disk)) = [10, 11, 12, 20, 21]"
proof -
  have run: "process args_ab disk =
      (fst (process args_ab disk),
       Inr \<lparr>total_image_count = 5, last_status_time = 10, ticks = 7,
            written = [10, 11, 12, 20, 21]\<rparr>)"
    by (simp add: process_ab)
  have res: "snd (process args_ab disk) =
      Inr \<lparr>total_image_count = 5, last_status_time = 10, ticks = 7,
           written = [10, 11, 12, 20, 21]\<rparr>"
    by (simp add: process_ab)
  have "input_frames disk (input_files args_ab) = [10, 11, 12, 20, 21]"
    by (simp add: input_frames_def input_defs)
  with concat_preserves_frame_order [OF run] res show ?thesis by simp
qed

subsection \<open>Frame count and summary\<close>

lemma length_input_frames:
  "length (input_frames w ps) = (\<Sum>p\<leftarrow>ps. length (frames (the (get_reader w p))))"
  by (simp add: input_frames_def length_concat comp_def)

lemma printed_append:
  "printed cfg (a @ b) = printed cfg a @ printed cfg b"
  by (simp add: printed_def)

text \<open>
  Claim C2.  When \<open>process\<close> returns, the frame counter is the sum of the numbers of
  frames of the inputs.  The summary is the last thing the run hands to \<open>iprint\<close>,
  and the last thing printed unless \<open>_quiet\<close> is set: its rate is the counter divided
  by the elapsed time, the reading of the clock after the writer is closed minus the
  reading taken before it was opened; the elapsed time is not zero.
\<close>

theorem frame_count_and_summary:
  assumes "process cfg w = (tr, Inr s)"
  shows "total_image_count s = (\<Sum>p\<leftarrow>input_files cfg. length (frames (the (get_reader w p)))) \<and>
    (let n = total_image_count s;
         total_time = perf_counter w (Suc n) - perf_counter w 0
     in total_time \<noteq> 0 \<and>
        suffix [Iprint Done, Iprint (TotalDuration total_time), Iprint (TotalImageCount n),
                Iprint (ProcessingRate (real n / total_time))] tr \<and>
        (quiet cfg \<or>
         suffix [Done, TotalDuration total_time, TotalImageCount n,
                 ProcessingRate (real n / total_time)] (printed cfg tr)))"
proof -
  from assms obtain ev0 prm ev1 s1 ev2 where
    rf: "read_files cfg w (p_framerate prm) (perf_counter w 0)
        \<lparr>total_image_count = 0, last_status_time = perf_counter w 0, ticks = 1, written = []\<rparr>
        (input_files cfg) = (ev1, Inr s1)" and
    fi: "finish w (perf_counter w 0) s1 = (ev2, Inr s)" and
    tr: "tr = ev0 @ report_params cfg prm @ open_writer cfg prm # ev1 @ ev2"
    by (rule process_Inr)
  let ?n = "total_image_count s"
  let ?T = "perf_counter w (Suc ?n) - perf_counter w 0"
  from read_files_Inr [OF rf] finish_Inr(2) [OF fi]
  have n: "?n = length (input_frames w (input_files cfg))" and t: "ticks s1 = Suc ?n"
    and n1: "total_image_count s1 = ?n"
    by simp_all
  from finish_Inr(4) [OF fi] t have nz: "?T \<noteq> 0" by simp
  from finish_Inr(5) [OF fi] t n1
  have ev2: "ev2 = [Iprint Blank, WriterClose] @
      [Iprint Done, Iprint (TotalDuration ?T), Iprint (TotalImageCount ?n),
       Iprint (ProcessingRate (real ?n / ?T))]"
    by simp
  have tr': "tr = (ev0 @ report_params cfg prm @ open_writer cfg prm # ev1 @ [Iprint Blank, WriterClose]) @
      [Iprint Done, Iprint (TotalDuration ?T), Iprint (TotalImageCount ?n),
       Iprint (ProcessingRate (real ?n / ?T))]"
    unfolding tr ev2 by simp
  have suf: "suffix [Iprint Done, Iprint (TotalDuration ?T), Iprint (TotalImageCount ?n),
       Iprint (ProcessingRate (real ?n / ?T))] tr"
    by (subst tr') (rule suffixI, rule refl)
  have "suffix [Done, TotalDuration ?T, TotalImageCount ?n, ProcessingRate (real ?n / ?T)]
          (printed cfg tr)" if "\<not> quiet cfg"
    by (subst tr', subst printed_append, rule suffixI) (simp add: printed_def that)
  with n nz suf show ?thesis
    by (auto simp: length_input_frames Let_def)
qed


lemma run_ab:
  "process args_ab disk =
     (fst (process args_ab disk),
      Inr \<lparr>total_image_count = 5, last_status_time = 10, ticks = 7,
           written = [10, 11, 12, 20, 21]\<rparr>)"
  by (simp add: process_ab)

theorem frame_count_and_summary_witness:
  "snd (process args_ab disk) =
     Inr \<lparr>total_image_count = 5, last_status_time = 10, ticks = 7,
          written = [10, 11, 12, 20, 21]\<rparr> \<and>
   (\<Sum>p\<leftarrow>input_files args_ab. length (frames (the (get_reader disk p)))) = 5 \<and>
   perf_counter disk 6 - perf_counter disk 0 = 12 \<and>
   suffix [Done, TotalDuration 12, TotalImageCount 5, ProcessingRate (5 / 12)]
     (printed args_ab (fst (process args_ab disk)))"
proof -
  have res: "snd (process args_ab disk) =
      Inr \<lparr>total_image_count = 5, last_status_time = 10, ticks = 7,
           written = [10, 11, 12, 20, 21]\<rparr>"
    by (simp add: process_ab)
  have t: "perf_counter disk 6 - perf_counter disk 0 = 12" "\<not> quiet args_ab"
    by (simp_all add: input_defs)
  from frame_count_and_summary [OF run_ab] t res show ?thesis
    by (simp add: Let_def)
qed

subsection \<open>Preview\<close>

lemma concat_map_if:
  "concat (map (\<lambda>x. if Q x then g x else []) xs) = concat (map g (filter Q xs))"
  by (induction xs) simp_all

lemma read_frames_previews:
  "read_frames cfg w fr st s fs = (ev, Inr s') \<Longrightarrow>
     filter is_preview ev =
       concat (map (preview_of cfg fr) (enumerate (total_image_count s) fs))"
proof (induction fs arbitrary: s ev)
  case Nil
  then show ?case by simp
next
  case (Cons f fs)
  from Cons.prems obtain ev1 s1 ev2 where
    step: "frame_step cfg w fr st s f = (ev1, Inr s1)" and
    rest: "read_frames cfg w fr st s1 fs = (ev2, Inr s')" and
    ev: "ev = ev1 @ ev2"
    by (auto split: prod.splits sum.splits)
  from Cons.IH [OF rest] frame_step_Inr(2,5) [OF step] ev
  show ?case by (simp add: preview_of_def)
qed

lemma read_file_previews:
  "read_file cfg w fr st s p = (ev, Inr s') \<Longrightarrow>
     filter is_preview ev =
       concat (map (preview_of cfg fr)
         (enumerate (total_image_count s) (frames (the (get_reader w p)))))"
  by (auto simp: read_file_def split: option.splits prod.splits sum.splits if_splits
           dest!: read_frames_previews)

lemma read_files_previews:
  "read_files cfg w fr st s ps = (ev, Inr s') \<Longrightarrow>
     filter is_preview ev =
       concat (map (preview_of cfg fr) (enumerate (total_image_count s) (input_frames w ps)))"
proof (induction ps arbitrary: s ev)
  case Nil
  then show ?case by (simp add: input_frames_def)
next
  case (Cons p ps)
  from Cons.prems obtain ev1 s1 ev2 where
    one: "read_file cfg w fr st s p = (ev1, Inr s1)" and
    rest: "read_files cfg w fr st s1 ps = (ev2, Inr s')" and
    ev: "ev = ev1 @ ev2"
    by (auto split: prod.splits sum.splits)
  from Cons.IH [OF rest] read_file_previews [OF one] read_file_Inr(2) [OF one] ev
  show ?case by (simp add: input_frames_def enumerate_append_eq)
qed

lemma previews_probe: "probe cfg w = (ev, r) \<Longrightarrow> filter is_preview ev = []"
  by (auto simp: probe_def split: list.splits option.splits if_splits)

lemma previews_finish: "finish w st s = (ev, r) \<Longrightarrow> filter is_preview ev = []"
  by (auto simp: finish_def Let_def split: if_splits)

text \<open>
  Claim C6.  With a preview interval \<open>P > 0\<close>, a run of \<open>process\<close> that returns has
  shown exactly the frames whose position in the whole output, counted from 0 across all
  inputs, is a multiple of \<open>P\<close>, in order; each is shown with its position and the
  time, the position divided by the negotiated framerate.
\<close>

theorem preview_every_pth_frame:
  assumes "process cfg w = (tr, Inr s)"
    and "preview cfg = Some P" and "0 < P"
    and "probe cfg w = (ev0, Inr prm)"
  shows "filter is_preview tr =
     concat (map (\<lambda>(i, f). [Imshow f, Suptitle i (real i / p_framerate prm)])
       (filter (\<lambda>(i, f). P dvd int i) (enumerate 0 (input_frames w (input_files cfg)))))"
proof -
  from assms(1) obtain ev0' prm' ev1 s1 ev2 where
    pr: "probe cfg w = (ev0', Inr prm')" and
    rf: "read_files cfg w (p_framerate prm') (perf_counter w 0)
        \<lparr>total_image_count = 0, last_status_time = perf_counter w 0, ticks = 1, written = []\<rparr>
        (input_files cfg) = (ev1, Inr s1)" and
    fi: "finish w (perf_counter w 0) s1 = (ev2, Inr s)" and
    tr: "tr = ev0' @ report_params cfg prm' @ open_writer cfg prm' # ev1 @ ev2"
    by (rule process_Inr)
  from pr assms(4) have same: "ev0' = ev0" "prm' = prm" by simp_all
  have pv: "preview_of cfg (p_framerate prm) =
      (\<lambda>x. if (case x of (i, f) \<Rightarrow> P dvd int i)
            then (case x of (i, f) \<Rightarrow> [Imshow f, Suptitle i (real i / p_framerate prm)])
            else [])"
    using assms(2,3) by (auto simp: preview_of_def truthy_def fun_eq_iff mod_eq_0_iff_dvd)
  from read_files_previews [OF rf] previews_probe [OF pr] previews_finish [OF fi] tr same
  have "filter is_preview tr =
      concat (map (preview_of cfg (p_framerate prm))
        (enumerate 0 (input_frames w (input_files cfg))))"
    by (simp add: report_params_def open_writer_def)
  then show ?thesis
    unfolding pv by (simp only: concat_map_if)
qed

theorem preview_every_pth_frame_witness:
  "preview args_ab = Some 2 \<and>
   filter is_preview (fst (process args_ab disk)) =
     [Imshow 10, Suptitle 0 0, Imshow 12, Suptitle 2 (1 / 15), Imshow 21, Suptitle 4 (2 / 15)] \<and>
   concat (map (\<lambda>(i, f). [Imshow f, Suptitle i (real i / 30)])
       (filter (\<lambda>(i, f). 2 dvd int i) (enumerate 0 [10, 11, 12, 20, 21::nat]))) =
     [Imshow 10, Suptitle 0 0, Imshow 12, Suptitle 2 (1 / 15), Imshow 21, Suptitle 4 (2 / 15)]"
proof -
  have pv: "preview args_ab = Some 2" and pos: "(0::int) < 2"
    by (simp_all add: input_defs)
  have pr: "probe args_ab disk =
      ([ReaderOpened ''a'', ReaderClose ''a''],
       Inr \<lparr>p_size = (640, 480), p_framerate = 30,
            p_pixelformat = ''yuv420p'', p_codec = ''h264''\<rparr>)"
    by (simp add: run_defs input_defs)
  have fs: "input_frames disk (input_files args_ab) = [10, 11, 12, 20, 21]"
    by (simp add: input_frames_def input_defs)
  have "filter is_preview (fst (process args_ab disk)) =
     [Imshow 10, Suptitle 0 0, Imshow 12, Suptitle 2 (1 / 15), Imshow 21, Suptitle 4 (2 / 15)]"
    by (simp add: process_ab)
  with preview_every_pth_frame [OF run_ab pv pos pr] pv fs show ?thesis by simp
qed

subsection \<open>Existing output\<close>

lemma check_inputs_prints: "check_inputs w ps = (ev, ok) \<Longrightarrow> \<forall>e\<in>set ev. is_print e"
  by (induction ps arbitrary: ev ok) (auto split: if_splits prod.splits)

lemma check_output_prints: "check_output cfg w = (ev, ok) \<Longrightarrow> \<forall>e\<in>set ev. is_print e"
  by (auto simp: check_output_def Let_def split: if_splits)

lemma check_files_prints:
  assumes "check_files cfg w = (ev, ok)"
  shows "\<forall>e\<in>set ev. is_print e"
proof -
  obtain ev1 ok1 where a: "check_inputs w (input_files cfg) = (ev1, ok1)"
    by (cases "check_inputs w (input_files cfg)")
  obtain ev2 ok2 where b: "check_output cfg w = (ev2, ok2)"
    by (cases "check_output cfg w")
  from assms a b check_inputs_prints [OF a] check_output_prints [OF b] show ?thesis
    by (auto simp: check_files_def split: if_splits bool.splits)
qed

lemma check_files_existing_output:
  "path_exists w (output_file cfg) \<Longrightarrow> \<not> overwrite cfg \<Longrightarrow> snd (check_files cfg w) = False"
  by (auto simp: check_files_def check_output_def Let_def split: prod.splits bool.splits)

text \<open>
  Claim C8.  When the output path exists and \<open>-w\<close> was not given, \<open>main\<close> ends with
  exit status 1 and has done nothing but print: no reader and no writer was opened and
  no frame was appended, so the existing file is as it was.
\<close>

theorem existing_output_aborts:
  assumes "path_exists w (output_file cfg)" and "\<not> overwrite cfg"
  shows "exit_code (snd (main cfg w)) = 1 \<and> (\<forall>e\<in>set (fst (main cfg w)). is_print e)"
proof (cases "parse_arguments cfg")
  case (Inl e)
  then have "e = AssertionError"
    by (auto simp: parse_arguments_def split: if_splits)
  with Inl show ?thesis by (simp add: main_def exit_code_def)
next
  case (Inr u)
  obtain ev ok where cf: "check_files cfg w = (ev, ok)" by (cases "check_files cfg w")
  with check_files_existing_output [OF assms] have "\<not> ok" by simp
  with Inr cf check_files_prints [OF cf] show ?thesis
    by (simp add: main_def exit_code_def)
qed

theorem existing_output_aborts_witness:
  "path_exists disk (output_file args_taken) \<and> \<not> overwrite args_taken \<and>
   main args_taken disk =
     ([Iprint Version, Iprint Blank, Iprint InputFilesHeader, Iprint (InputFile ''a''),
       Iprint Blank, Iprint (OutputFile ''b''), Eprint (OutputExists ''b'')],
      Inl (SystemExit 1)) \<and>
   exit_code (snd (main args_taken disk)) = 1"
proof -
  have h: "path_exists disk (output_file args_taken)" "\<not> overwrite args_taken"
    by (simp_all add: args_taken_def input_defs)
  have "main args_taken disk =
     ([Iprint Version, Iprint Blank, Iprint InputFilesHeader, Iprint (InputFile ''a''),
       Iprint Blank, Iprint (OutputFile ''b''), Eprint (OutputExists ''b'')],
      Inl (SystemExit 1))"
    by (simp add: run_defs args_taken_def input_defs)
  with existing_output_aborts [OF h] h show ?thesis by simp
qed

subsection \<open>The arguments of the writer\<close>

lemma loop_step_writer:
  "status_step cfg fr st ct s = (ev, r) \<Longrightarrow> \<forall>e\<in>set ev. \<not> is_writer_open e \<and> e \<noteq> WriterClose"
  "preview_step cfg fr f s = (ev, r) \<Longrightarrow> \<forall>e\<in>set ev. \<not> is_writer_open e \<and> e \<noteq> WriterClose"
  by (auto simp: status_step_def preview_step_def split: if_splits)

lemma frame_step_writer:
  "frame_step cfg w fr st s f = (ev, r) \<Longrightarrow> \<forall>e\<in>set ev. \<not> is_writer_open e \<and> e \<noteq> WriterClose"
  by (auto simp: frame_step_def Let_def split: if_splits prod.splits sum.splits
           dest!: loop_step_writer)

lemma read_frames_writer:
  "read_frames cfg w fr st s fs = (ev, r) \<Longrightarrow> \<forall>e\<in>set ev. \<not> is_writer_open e \<and> e \<noteq> WriterClose"
proof (induction fs arbitrary: s ev r)
  case Nil
  then show ?case by simp
next
  case (Cons f fs)
  obtain ev1 r1 where step: "frame_step cfg w fr st s f = (ev1, r1)"
    by (cases "frame_step cfg w fr st s f")
  show ?case
  proof (cases r1)
    case (Inl e)
    with Cons.prems step frame_step_writer [OF step] show ?thesis by simp
  next
    case (Inr s1)
    obtain ev2 r2 where rest: "read_frames cfg w fr st s1 fs = (ev2, r2)"
      by (cases "read_frames cfg w fr st s1 fs")
    with Cons.prems step Inr have "ev = ev1 @ ev2" by simp
    with frame_step_writer [OF step] Cons.IH [OF rest] show ?thesis by auto
  qed
qed

lemma read_file_writer:
  "read_file cfg w fr st s p = (ev, r) \<Longrightarrow> \<forall>e\<in>set ev. \<not> is_writer_open e \<and> e \<noteq> WriterClose"
  by (auto simp: read_file_def split: option.splits prod.splits sum.splits if_splits
           dest!: read_frames_writer)

lemma read_files_writer:
  "read_files cfg w fr st s ps = (ev, r) \<Longrightarrow> \<forall>e\<in>set ev. \<not> is_writer_open e \<and> e \<noteq> WriterClose"
proof (induction ps arbitrary: s ev r)
  case Nil
  then show ?case by simp
next
  case (Cons p ps)
  obtain ev1 r1 where one: "read_file cfg w fr st s p = (ev1, r1)"
    by (cases "read_file cfg w fr st s p")
  show ?case
  proof (cases r1)
    case (Inl e)
    with Cons.prems one read_file_writer [OF one] show ?thesis by simp
  next
    case (Inr s1)
    obtain ev2 r2 where rest: "read_files cfg w fr st s1 ps = (ev2, r2)"
      by (cases "read_files cfg w fr st s1 ps")
    with Cons.prems one Inr have "ev = ev1 @ ev2" by simp
    with read_file_writer [OF one] Cons.IH [OF rest] show ?thesis by auto
  qed
qed

lemma probe_writer:
  "probe cfg w = (ev, r) \<Longrightarrow> \<forall>e\<in>set ev. \<not> is_writer_open e \<and> e \<noteq> WriterClose"
  by (auto simp: probe_def split: list.splits option.splits if_splits)

lemma report_params_writer:
  "\<forall>e\<in>set (report_params cfg prm). \<not> is_writer_open e \<and> e \<noteq> WriterClose"
  by (simp add: report_params_def)

lemma finish_writer_open: "finish w st s = (ev, r) \<Longrightarrow> \<forall>e\<in>set ev. \<not> is_writer_open e"
  by (auto simp: finish_def Let_def split: if_splits)

text \<open>The only call of \<open>get_writer\<close> in a run of \<open>process\<close> is the one of line 144.\<close>

lemma process_writer_open:
  assumes "process cfg w = (tr, r)" and "WriterOpened out args \<in> set tr"
  obtains ev0 prm where "probe cfg w = (ev0, Inr prm)"
    and "out = output_file cfg"
    and "args = \<lparr>wa_fps = p_framerate prm, wa_quality = OUTPUT_QUALITY,
                  wa_codec = p_codec prm, wa_pixelformat = p_pixelformat prm\<rparr>"
    and "set (report_params cfg prm) \<subseteq> set tr"
proof -
  obtain ev0 r0 where pr: "probe cfg w = (ev0, r0)" by (cases "probe cfg w")
  show thesis
  proof (cases r0)
    case (Inl e)
    with assms pr probe_writer [OF pr] show thesis
      by (auto simp: process_def)
  next
    case (Inr prm)
    let ?st = "perf_counter w 0"
    let ?s0 = "\<lparr>total_image_count = 0, last_status_time = ?st, ticks = 1, written = []\<rparr>"
    obtain ev1 r1 where rf: "read_files cfg w (p_framerate prm) ?st ?s0 (input_files cfg) = (ev1, r1)"
      by (cases "read_files cfg w (p_framerate prm) ?st ?s0 (input_files cfg)")
    have other: "WriterOpened out args \<notin> set ev0" "WriterOpened out args \<notin> set ev1"
        "WriterOpened out args \<notin> set (report_params cfg prm)"
      using probe_writer [OF pr] read_files_writer [OF rf] report_params_writer [of cfg prm]
      by fastforce+
    have fin: "WriterOpened out args \<notin> set ev2" if "finish w ?st s1 = (ev2, r2)" for s1 ev2 r2
      using finish_writer_open [OF that] by fastforce
    from assms pr Inr rf other fin
    have "out = output_file cfg \<and>
        args = \<lparr>wa_fps = p_framerate prm, wa_quality = OUTPUT_QUALITY,
                 wa_codec = p_codec prm, wa_pixelformat = p_pixelformat prm\<rparr> \<and>
        set (report_params cfg prm) \<subseteq> set tr"
      by (auto simp: process_def Let_def open_writer_def split: if_splits sum.splits prod.splits)
    with pr Inr that show thesis by blast
  qed
qed

lemma takeWhile_longest:
  assumes "prefix q raw" and "\<forall>ch\<in>set q. P ch"
  shows "length q \<le> length (takeWhile P raw)"
proof -
  from assms(1) obtain r where "raw = q @ r" by (auto simp: prefix_def)
  with assms(2) show ?thesis by (simp add: takeWhile_append2)
qed

subsection \<open>Pixel format\<close>

text \<open>
  Claim C9.  When the pixel format string of the first input begins with a character of
  \<open>[0-9A-Za-z]\<close>, the search returns the longest prefix of the string made of such
  characters, and that token is the \<open>pixelformat\<close> of every call of \<open>get_writer\<close>:
  \<open>yuv420p(tv)\<close> gives \<open>yuv420p\<close>.
\<close>

theorem pixel_format_token:
  assumes "input_files cfg = p0 # ps" and "get_reader w p0 = Some src"
    and "meta_pix_fmt (meta src) = Some raw"
    and "raw = c # cs" and "alnum c"
  shows "re_search True raw = Some (takeWhile alnum raw) \<and>
    (\<forall>out args. WriterOpened out args \<in> set (fst (process cfg w)) \<longrightarrow>
       wa_pixelformat args = takeWhile alnum raw) \<and>
    prefix (takeWhile alnum raw) raw \<and> (\<forall>ch\<in>set (takeWhile alnum raw). alnum ch) \<and>
    (\<forall>q. prefix q raw \<and> (\<forall>ch\<in>set q. alnum ch) \<longrightarrow> length q \<le> length (takeWhile alnum raw))"
proof -
  from assms(4,5) have tok: "re_search True raw = Some (takeWhile alnum raw)"
    by (simp add: re_search_takeWhile)
  have "wa_pixelformat args = takeWhile alnum raw"
    if "WriterOpened out args \<in> set (fst (process cfg w))" for out args
  proof -
    obtain tr r where run: "process cfg w = (tr, r)" by (cases "process cfg w")
    with that have "WriterOpened out args \<in> set tr" by simp
    with run obtain ev0 prm where pr: "probe cfg w = (ev0, Inr prm)"
      and op: "args = \<lparr>wa_fps = p_framerate prm, wa_quality = OUTPUT_QUALITY,
                  wa_codec = p_codec prm, wa_pixelformat = p_pixelformat prm\<rparr>"
      by (rule process_writer_open)
    from pr assms(1-3) tok have "p_pixelformat prm = takeWhile alnum raw"
      by (auto simp: probe_def split: option.splits if_splits)
    with op show ?thesis by simp
  qed
  moreover have "prefix (takeWhile alnum raw) raw"
    by (metis prefixI takeWhile_dropWhile_id)
  moreover have "\<forall>ch\<in>set (takeWhile alnum raw). alnum ch"
    by (auto dest: set_takeWhileD)
  ultimately show ?thesis using tok takeWhile_longest by blast
qed

theorem pixel_format_token_witness:
  "input_files args_ab = ''a'' # [''b''] \<and> get_reader disk ''a'' = Some clip_a \<and>
   meta_pix_fmt (meta clip_a) = Some ''yuv420p(tv)'' \<and> alnum CHR ''y'' \<and>
   re_search True ''yuv420p(tv)'' = Some ''yuv420p'' \<and>
   takeWhile alnum ''yuv420p(tv)'' = ''yuv420p'' \<and>
   WriterOpened ''o'' \<lparr>wa_fps = 30, wa_quality = 10, wa_codec = ''h264'',
      wa_pixelformat = ''yuv420p''\<rparr> \<in> set (fst (process args_ab disk))"
proof -
  have h: "input_files args_ab = ''a'' # [''b'']" "get_reader disk ''a'' = Some clip_a"
    "meta_pix_fmt (meta clip_a) = Some ''yuv420p(tv)''"
    "''yuv420p(tv)'' = CHR ''y'' # ''uv420p(tv)''" "alnum CHR ''y''"
    by (simp_all add: input_defs alnum_def)
  have t: "takeWhile alnum ''yuv420p(tv)'' = ''yuv420p''"
    by (simp add: alnum_def)
  have "WriterOpened ''o'' \<lparr>wa_fps = 30, wa_quality = 10, wa_codec = ''h264'',
      wa_pixelformat = ''yuv420p''\<rparr> \<in> set (fst (process args_ab disk))"
    by (simp add: process_ab)
  moreover from pixel_format_token [OF h, THEN conjunct1] t
  have "re_search True ''yuv420p(tv)'' = Some ''yuv420p''" by simp
  ultimately show ?thesis using h(1,2,3,5) t by simp
qed

text \<open>
  Claim C10.  When the pixel format string of the first input is empty or begins with a
  character outside \<open>[0-9A-Za-z]\<close>, the search returns \<open>None\<close> and the subscript
  raises \<open>TypeError\<close>: \<open>process\<close> ends there, with the probing reader still open,
  no token and no writer, and the interpreter exits with status 1.
\<close>

theorem pixel_format_without_token_raises:
  assumes "input_files cfg = p0 # ps" and "get_reader w p0 = Some src"
    and "meta_size (meta src) = Some sz"
    and "truthy (framerate cfg) \<or> meta_fps (meta src) = Some fps0"
    and "meta_pix_fmt (meta src) = Some raw"
    and "raw = [] \<or> \<not> alnum (hd raw)"
  shows "re_search True raw = None \<and>
         probe cfg w = ([ReaderOpened p0], Inl TypeError) \<and>
         process cfg w = ([ReaderOpened p0], Inl TypeError) \<and>
         exit_code (snd (process cfg w)) = 1"
proof -
  from assms(6) have "takeWhile alnum raw = []" by (cases raw) auto
  then have none: "re_search True raw = None" by (simp add: re_search_takeWhile)
  with assms(1-5) have "probe cfg w = ([ReaderOpened p0], Inl TypeError)"
    by (auto simp: probe_def truthy_def split: option.splits)
  with none show ?thesis by (simp add: process_def exit_code_def)
qed

theorem pixel_format_without_token_raises_witness:
  "input_files args_ab = ''a'' # [''b''] \<and> get_reader disk_odd ''a'' = Some clip_odd \<and>
   meta_pix_fmt (meta clip_odd) = Some ''(tv)'' \<and> \<not> alnum (hd ''(tv)'') \<and>
   process args_ab disk_odd = ([ReaderOpened ''a''], Inl TypeError)"
proof -
  have h: "input_files args_ab = ''a'' # [''b'']" "get_reader disk_odd ''a'' = Some clip_odd"
    "meta_size (meta clip_odd) = Some (640, 480)"
    "truthy (framerate args_ab) \<or> meta_fps (meta clip_odd) = Some 30"
    "meta_pix_fmt (meta clip_odd) = Some ''(tv)''"
    "''(tv)'' = [] \<or> \<not> alnum (hd ''(tv)'')"
    by (simp_all add: input_defs disk_odd_def clip_odd_def alnum_def)
  from pixel_format_without_token_raises [OF h] h show ?thesis by simp
qed

subsection \<open>Negotiated parameters\<close>

lemma probe_Inr:
  assumes "probe cfg w = (ev, Inr prm)"
    and "input_files cfg = p0 # ps" and "get_reader w p0 = Some src"
  shows "meta_size (meta src) = Some (p_size prm)"
    and "(if truthy (framerate cfg) then framerate cfg else meta_fps (meta src)) =
           Some (p_framerate prm)"
    and "\<exists>raw. meta_pix_fmt (meta src) = Some raw \<and> p_pixelformat prm = takeWhile alnum raw"
    and "meta_codec (meta src) = Some (p_codec prm)"
  using assms
  by (auto simp: probe_def re_search_takeWhile split: option.splits if_splits)

lemma main_process:
  assumes "main cfg w = (tr, r)" and "e \<in> set tr" and "\<not> is_print e"
  obtains tr' where "parse_arguments cfg = Inr ()" and "process cfg w = (tr', r)"
    and "e \<in> set tr'" and "set tr' \<subseteq> set tr"
proof -
  obtain ev ok where cf: "check_files cfg w = (ev, ok)" by (cases "check_files cfg w")
  obtain tr' r' where run: "process cfg w = (tr', r')" by (cases "process cfg w")
  from assms have pa: "parse_arguments cfg = Inr ()"
    by (cases "parse_arguments cfg") (auto simp: main_def)
  from check_files_prints [OF cf] assms(3) have "e \<notin> set ev" by blast
  with assms pa cf run have "r' = r \<and> e \<in> set tr' \<and> set tr' \<subseteq> set tr"
    by (cases ok) (auto simp: main_def)
  with pa run that show thesis by blast
qed

text \<open>
  Claim C3, as amended.  Whenever a run of \<open>main\<close> opens the writer, the framerate it
  passes is the override if one greater than 0 was given, and the \<open>fps\<close> of the first
  input's metadata otherwise; the pixel format is the token of that metadata's
  \<open>pix_fmt\<close>, the codec is its \<open>codec\<close>, the quality is 10, and no option overrides
  them.  The \<open>size\<close> of the metadata is printed; it is not among the writer's
  arguments (see the counterexample below: two probes that differ in size only open
  the writer with the same arguments).
\<close>

theorem writer_arguments_from_probe:
  assumes "main cfg w = (tr, r)" and "WriterOpened out args \<in> set tr"
    and "input_files cfg = p0 # ps" and "get_reader w p0 = Some src"
  shows "(case framerate cfg of
            Some v \<Rightarrow> if 0 < v then wa_fps args = v
                      else meta_fps (meta src) = Some (wa_fps args)
          | None \<Rightarrow> meta_fps (meta src) = Some (wa_fps args)) \<and>
         (\<exists>raw. meta_pix_fmt (meta src) = Some raw \<and>
                wa_pixelformat args = takeWhile alnum raw) \<and>
         meta_codec (meta src) = Some (wa_codec args) \<and>
         wa_quality args = 10 \<and> out = output_file cfg \<and>
         (\<exists>sz. meta_size (meta src) = Some sz \<and> Iprint (Size sz) \<in> set tr)"
proof -
  from assms(1,2) obtain tr' where pa: "parse_arguments cfg = Inr ()"
    and run: "process cfg w = (tr', r)" and mem: "WriterOpened out args \<in> set tr'"
    and sub: "set tr' \<subseteq> set tr"
    by (rule main_process) simp_all
  from run mem obtain ev0 prm where pr: "probe cfg w = (ev0, Inr prm)"
    and out: "out = output_file cfg"
    and args: "args = \<lparr>wa_fps = p_framerate prm, wa_quality = OUTPUT_QUALITY,
                  wa_codec = p_codec prm, wa_pixelformat = p_pixelformat prm\<rparr>"
    and rep: "set (report_params cfg prm) \<subseteq> set tr'"
    by (rule process_writer_open)
  note meta = probe_Inr [OF pr assms(3,4)]
  from pa have pos: "0 < v" if "framerate cfg = Some v" "v \<noteq> 0" for v
    using that by (auto simp: parse_arguments_def truthy_def split: if_splits)
  from meta(2) pos args
  have "(case framerate cfg of
            Some v \<Rightarrow> if 0 < v then wa_fps args = v
                      else meta_fps (meta src) = Some (wa_fps args)
          | None \<Rightarrow> meta_fps (meta src) = Some (wa_fps args))"
    by (auto simp: truthy_def split: option.splits if_splits)
  moreover from rep sub have "Iprint (Size (p_size prm)) \<in> set tr"
    by (auto simp: report_params_def)
  ultimately show ?thesis using meta(1,3,4) args out
    by (auto simp: OUTPUT_QUALITY_def)
qed

lemma main_ab_writer:
  "filter is_writer_open (fst (main args_ab disk)) =
     [WriterOpened ''o'' \<lparr>wa_fps = 30, wa_quality = 10, wa_codec = ''h264'',
        wa_pixelformat = ''yuv420p''\<rparr>]"
  by (simp add: run_defs input_defs)

text \<open>
  The claim as stated has a width and height passed to the writer.  Two runs whose first
  inputs differ in size only call \<open>get_writer\<close> with equal arguments.
\<close>

theorem writer_arguments_without_size:
  "meta_size (meta (the (get_reader disk (hd (input_files args_ab))))) = Some (640, 480) \<and>
   meta_size (meta (the (get_reader disk_hd (hd (input_files args_ab))))) = Some (1920, 1080) \<and>
   filter is_writer_open (fst (main args_ab disk)) =
     [WriterOpened ''o'' \<lparr>wa_fps = 30, wa_quality = 10, wa_codec = ''h264'',
        wa_pixelformat = ''yuv420p''\<rparr>] \<and>
   filter is_writer_open (fst (main args_ab disk_hd)) =
     [WriterOpened ''o'' \<lparr>wa_fps = 30, wa_quality = 10, wa_codec = ''h264'',
        wa_pixelformat = ''yuv420p''\<rparr>]"
  by (simp add: run_defs input_defs disk_hd_def clip_hd_def)

theorem writer_arguments_from_probe_witness:
  "input_files args_ab = ''a'' # [''b''] \<and> get_reader disk ''a'' = Some clip_a \<and>
   WriterOpened ''o'' \<lparr>wa_fps = 30, wa_quality = 10, wa_codec = ''h264'',
        wa_pixelformat = ''yuv420p''\<rparr> \<in> set (fst (main args_ab disk)) \<and>
   framerate args_ab = None \<and> meta_fps (meta clip_a) = Some 30 \<and>
   meta_codec (meta clip_a) = Some ''h264'' \<and>
   Iprint (Size (640, 480)) \<in> set (fst (main args_ab disk))"
proof -
  let ?args = "\<lparr>wa_fps = 30, wa_quality = 10, wa_codec = ''h264'',
        wa_pixelformat = ''yuv420p''\<rparr>"
  have run: "main args_ab disk = (fst (main args_ab disk), snd (main args_ab disk))"
    by simp
  have "WriterOpened ''o'' ?args \<in> set (filter is_writer_open (fst (main args_ab disk)))"
    by (simp only: main_ab_writer) simp
  then have mem: "WriterOpened ''o'' ?args \<in> set (fst (main args_ab disk))"
    by simp
  have h: "input_files args_ab = ''a'' # [''b'']" "get_reader disk ''a'' = Some clip_a"
    by (simp_all add: input_defs)
  have f: "framerate args_ab = None" "meta_size (meta clip_a) = Some (640, 480)"
    by (simp_all add: input_defs)
  from writer_arguments_from_probe [OF run mem h] f
  have "meta_fps (meta clip_a) = Some 30 \<and> meta_codec (meta clip_a) = Some ''h264'' \<and>
        Iprint (Size (640, 480)) \<in> set (fst (main args_ab disk))"
    by simp
  with h mem f show ?thesis by simp
qed

subsection \<open>Closing\<close>

lemma loop_step_track:
  "status_step cfg fr st ct s = (ev, r) \<Longrightarrow> fold track ev rs = rs"
  "preview_step cfg fr f s = (ev, r) \<Longrightarrow> fold track ev rs = rs"
  by (auto simp: status_step_def preview_step_def split: if_splits)

lemma loop_step_error:
  "status_step cfg fr st ct s = (ev, Inl e) \<Longrightarrow> e = ZeroDivisionError"
  "preview_step cfg fr f s = (ev, Inl e) \<Longrightarrow> e = ZeroDivisionError"
  by (auto simp: status_step_def preview_step_def split: if_splits)

lemma frame_step_track:
  assumes "frame_step cfg w fr st s f = (ev, r)"
  shows "fold track ev rs = rs"
proof (cases "append_ok w (written s) f")
  case False
  with assms show ?thesis by (simp add: frame_step_def)
next
  case True
  let ?s1 = "s\<lparr>written := written s @ [f], ticks := Suc (ticks s)\<rparr>"
  obtain ev1 r1 where a: "status_step cfg fr st (perf_counter w (ticks s)) ?s1 = (ev1, r1)"
    by (cases "status_step cfg fr st (perf_counter w (ticks s)) ?s1")
  show ?thesis
  proof (cases r1)
    case (Inl e)
    with assms True a loop_step_track(1) [OF a, of rs] show ?thesis
      by (auto simp: frame_step_def Let_def)
  next
    case (Inr s2)
    obtain ev2 r2 where b: "preview_step cfg fr f s2 = (ev2, r2)"
      by (cases "preview_step cfg fr f s2")
    with assms True a Inr have "ev = AppendData f # ev1 @ ev2"
      by (auto simp: frame_step_def Let_def split: sum.splits)
    with loop_step_track(1) [OF a, of rs] loop_step_track(2) [OF b, of rs] show ?thesis
      by simp
  qed
qed

lemma frame_step_error:
  "frame_step cfg w fr st s f = (ev, Inl e) \<Longrightarrow> e = AppendError \<or> e = ZeroDivisionError"
  by (auto simp: frame_step_def Let_def split: if_splits prod.splits sum.splits
           dest: loop_step_error)

lemma read_frames_track:
  "read_frames cfg w fr st s fs = (ev, r) \<Longrightarrow>
     fold track ev rs = rs \<and>
     (case r of Inl e \<Rightarrow> e = AppendError \<or> e = ZeroDivisionError | Inr _ \<Rightarrow> True)"
proof (induction fs arbitrary: s ev r)
  case Nil
  then show ?case by auto
next
  case (Cons f fs)
  obtain ev1 r1 where step: "frame_step cfg w fr st s f = (ev1, r1)"
    by (cases "frame_step cfg w fr st s f")
  show ?case
  proof (cases r1)
    case (Inl e)
    with Cons.prems step frame_step_track [OF step] frame_step_error [of cfg w fr st s f ev1 e]
    show ?thesis by auto
  next
    case (Inr s1)
    obtain ev2 r2 where rest: "read_frames cfg w fr st s1 fs = (ev2, r2)"
      by (cases "read_frames cfg w fr st s1 fs")
    with Cons.prems step Inr have "ev = ev1 @ ev2" "r = r2" by simp_all
    with frame_step_track [OF step] Cons.IH [OF rest] show ?thesis by simp
  qed
qed

lemma read_file_track:
  assumes "read_file cfg w fr st s p = (ev, r)"
  shows "case r of Inr _ \<Rightarrow> fold track ev rs = rs
         | Inl e \<Rightarrow> left_open p e rs (fold track ev rs)"
proof (cases "get_reader w p")
  case None
  with assms show ?thesis by (auto simp: read_file_def left_open_def)
next
  case (Some src)
  obtain ev1 r1 where fr: "read_frames cfg w fr st s (frames src) = (ev1, r1)"
    by (cases "read_frames cfg w fr st s (frames src)")
  from read_frames_track [OF fr] have tr: "fold track ev1 rs' = rs'" for rs'
    by simp
  from read_frames_track [OF fr, of rs]
  have err: "case r1 of Inl e \<Rightarrow> e = AppendError \<or> e = ZeroDivisionError | Inr _ \<Rightarrow> True"
    by simp
  from assms Some fr tr err show ?thesis
    by (auto simp: read_file_def left_open_def split: sum.splits if_splits)
qed

lemma read_files_track:
  "read_files cfg w fr st s ps = (ev, r) \<Longrightarrow>
     (case r of Inr _ \<Rightarrow> fold track ev rs = rs
      | Inl e \<Rightarrow> \<exists>p\<in>set ps. left_open p e rs (fold track ev rs))"
proof (induction ps arbitrary: s ev r)
  case Nil
  then show ?case by auto
next
  case (Cons p ps)
  obtain ev1 r1 where one: "read_file cfg w fr st s p = (ev1, r1)"
    by (cases "read_file cfg w fr st s p")
  show ?case
  proof (cases r1)
    case (Inl e)
    with Cons.prems one read_file_track [OF one, of rs] show ?thesis by auto
  next
    case (Inr s1)
    obtain ev2 r2 where rest: "read_files cfg w fr st s1 ps = (ev2, r2)"
      by (cases "read_files cfg w fr st s1 ps")
    with Cons.prems one Inr have "ev = ev1 @ ev2" "r = r2" by simp_all
    with read_file_track [OF one, of rs] Inr Cons.IH [OF rest] show ?thesis
      by (auto split: sum.splits)
  qed
qed

lemma probe_track: "probe cfg w = (ev, Inr prm) \<Longrightarrow> fold track ev rs = rs"
  by (auto simp: probe_def split: list.splits option.splits if_splits)

lemma probe_error:
  "probe cfg w = (ev, Inl e) \<Longrightarrow> e \<noteq> AppendError \<and> e \<notin> range ReadError"
  by (auto simp: probe_def split: list.splits option.splits if_splits)

lemma report_params_track: "fold track (report_params cfg prm) rs = rs"
  by (simp add: report_params_def)

lemma finish_track:
  "finish w st s = (ev, r) \<Longrightarrow>
     fold track ev rs = rs \<and> WriterClose \<in> set ev \<and>
     (case r of Inl e \<Rightarrow> e = ZeroDivisionError | Inr _ \<Rightarrow> True)"
  by (auto simp: finish_def Let_def split: if_splits)

text \<open>
  Claim C7, as amended.  When \<open>process\<close> returns, every reader it opened has been
  closed and the writer has been closed.  When it is aborted by an error of
  \<open>append_data\<close> or of the iteration over a reader, the writer has been opened and is
  not closed, and the reader being read is left open: the script closes by plain calls
  after the loops, not in a scope that an exception would leave through.
\<close>

theorem closed_on_return_open_on_abort:
  assumes "process cfg w = (tr, r)"
  shows "case r of
           Inr _ \<Rightarrow> open_readers tr = [] \<and> WriterClose \<in> set tr
         | Inl e \<Rightarrow>
             (e = AppendError \<longrightarrow>
                (\<exists>p\<in>set (input_files cfg). open_readers tr = [p]) \<and>
                (\<exists>x\<in>set tr. is_writer_open x) \<and> WriterClose \<notin> set tr) \<and>
             (\<forall>q. e = ReadError q \<longrightarrow>
                open_readers tr = [q] \<and>
                (\<exists>x\<in>set tr. is_writer_open x) \<and> WriterClose \<notin> set tr)"
proof -
  obtain ev0 r0 where pr: "probe cfg w = (ev0, r0)" by (cases "probe cfg w")
  show ?thesis
  proof (cases r0)
    case (Inl e)
    with assms pr probe_error [of cfg w ev0 e] show ?thesis
      by (auto simp: process_def)
  next
    case (Inr prm)
    let ?st = "perf_counter w 0"
    let ?s0 = "\<lparr>total_image_count = 0, last_status_time = ?st, ticks = 1, written = []\<rparr>"
    obtain ev1 r1 where
      rf: "read_files cfg w (p_framerate prm) ?st ?s0 (input_files cfg) = (ev1, r1)"
      by (cases "read_files cfg w (p_framerate prm) ?st ?s0 (input_files cfg)")
    from pr Inr have t0: "fold track ev0 [] = []" by (simp add: probe_track)
    have nc: "WriterClose \<notin> set ev0" "WriterClose \<notin> set (report_params cfg prm)"
        "WriterClose \<notin> set ev1"
      using probe_writer [OF pr] read_files_writer [OF rf] report_params_writer [of cfg prm]
      by blast+
    show ?thesis
    proof (cases "get_writer w (output_file cfg)")
      case False
      with assms pr Inr show ?thesis by (auto simp: process_def Let_def)
    next
      case True
      show ?thesis
      proof (cases r1)
        case (Inl e)
        with assms pr Inr True rf
        have tr: "tr = ev0 @ report_params cfg prm @ open_writer cfg prm # ev1"
          and r: "r = Inl e"
          by (simp_all add: process_def Let_def)
        from tr t0 have op: "open_readers tr = fold track ev1 []"
          by (simp add: open_readers_def report_params_track open_writer_def)
        from read_files_track [OF rf, of "[]"] Inl
        obtain p where p: "p \<in> set (input_files cfg)"
          and lo: "left_open p e [] (fold track ev1 [])"
          by auto
        from tr nc have closed: "WriterClose \<notin> set tr"
          by (simp add: open_writer_def)
        from tr have opened: "\<exists>x\<in>set tr. is_writer_open x"
          by (simp add: open_writer_def)
        from p lo op closed opened r show ?thesis
          by (auto simp: left_open_def split: if_splits)
      next
        case s1: (Inr s1)
        obtain ev2 r2 where fi: "finish w ?st s1 = (ev2, r2)"
          by (cases "finish w ?st s1")
        with assms pr Inr True rf s1
        have tr: "tr = ev0 @ report_params cfg prm @ open_writer cfg prm # ev1 @ ev2"
          and r: "r = r2"
          by (simp_all add: process_def Let_def)
        from read_files_track [OF rf, of "[]"] s1 have "fold track ev1 [] = []" by simp
        with tr t0 finish_track [OF fi, of "[]"] have "open_readers tr = []"
          by (simp add: open_readers_def report_params_track open_writer_def)
        with tr r finish_track [OF fi, of "[]"] show ?thesis
          by (auto split: sum.splits)
      qed
    qed
  qed
qed

lemma process_broken:
  "process args_ab disk_broken =
    ([ReaderOpened ''a'', ReaderClose ''a'', Iprint (Size (640, 480)), Iprint (Framerate 30),
      Iprint (PixelFormat ''yuv420p''), Iprint (Codec ''h264''), Iprint (Quality 10),
      Iprint Blank, PyplotFigure,
      WriterOpened ''o''
        \<lparr>wa_fps = 30, wa_quality = 10, wa_codec = ''h264'', wa_pixelformat = ''yuv420p''\<rparr>,
      Iprint (Reading ''a''), ReaderOpened ''a'',
      AppendData 10, Iprint (Status 2 0 0), Imshow 10, Suptitle 0 0,
      AppendData 11, Iprint (Status 4 1 (1 / 30)),
      AppendData 12, Iprint (Status 6 2 (1 / 15)), Imshow 12, Suptitle 2 (1 / 15),
      ReaderClose ''a'', Iprint (Reading ''b''), ReaderOpened ''b'',
      AppendData 20, Iprint (Status 8 3 (1 / 10)),
      AppendData 21, Iprint (Status 10 4 (2 / 15)), Imshow 21, Suptitle 4 (2 / 15)],
     Inl (ReadError ''b''))"
  by (simp add: run_defs input_defs disk_broken_def clip_broken_def)

text \<open>
  The run on a second input that is malformed mid-stream ends with the reader of that
  input open and the writer open.
\<close>

theorem decode_error_leaves_open:
  "snd (process args_ab disk_broken) = Inl (ReadError ''b'') \<and>
   appended (fst (process args_ab disk_broken)) = [10, 11, 12, 20, 21] \<and>
   open_readers (fst (process args_ab disk_broken)) = [''b''] \<and>
   filter is_writer_open (fst (process args_ab disk_broken)) =
     [WriterOpened ''o''
        \<lparr>wa_fps = 30, wa_quality = 10, wa_codec = ''h264'', wa_pixelformat = ''yuv420p''\<rparr>] \<and>
   WriterClose \<notin> set (fst (process args_ab disk_broken))"
  by (simp add: process_broken open_readers_def)

lemma process_strict:
  "process args_ab disk_strict =
    ([ReaderOpened ''a'', ReaderClose ''a'', Iprint (Size (640, 480)), Iprint (Framerate 30),
      Iprint (PixelFormat ''yuv420p''), Iprint (Codec ''h264''), Iprint (Quality 10),
      Iprint Blank, PyplotFigure,
      WriterOpened ''o''
        \<lparr>wa_fps = 30, wa_quality = 10, wa_codec = ''h264'', wa_pixelformat = ''yuv420p''\<rparr>,
      Iprint (Reading ''a''), ReaderOpened ''a'',
      AppendData 10, Iprint (Status 2 0 0), Imshow 10, Suptitle 0 0,
      AppendData 11, Iprint (Status 4 1 (1 / 30)),
      AppendData 12, Iprint (Status 6 2 (1 / 15)), Imshow 12, Suptitle 2 (1 / 15),
      ReaderClose ''a'', Iprint (Reading ''b''), ReaderOpened ''b''],
     Inl AppendError)"
  by (simp add: run_defs input_defs disk_strict_def)

theorem closed_on_return_open_on_abort_witness:
  "snd (process args_ab disk_strict) = Inl AppendError \<and>
   open_readers (fst (process args_ab disk_strict)) = [''b''] \<and>
   WriterClose \<notin> set (fst (process args_ab disk_strict)) \<and>
   open_readers (fst (process args_ab disk)) = [] \<and>
   WriterClose \<in> set (fst (process args_ab disk))"
proof -
  have bad: "process args_ab disk_strict = (fst (process args_ab disk_strict), Inl AppendError)"
    by (simp add: process_strict)
  have good: "process args_ab disk = (fst (process args_ab disk), snd (process args_ab disk))"
    by simp
  have res: "snd (process args_ab disk) =
      Inr \<lparr>total_image_count = 5, last_status_time = 10, ticks = 7,
           written = [10, 11, 12, 20, 21]\<rparr>"
    by (simp add: process_ab)
  have o: "open_readers (fst (process args_ab disk_strict)) = [''b'']"
    by (simp add: process_strict open_readers_def)
  from closed_on_return_open_on_abort [OF bad] have "WriterClose \<notin> set (fst (process args_ab disk_strict))"
    by simp
  moreover from closed_on_return_open_on_abort [OF good] res
  have "open_readers (fst (process args_ab disk)) = [] \<and>
        WriterClose \<in> set (fst (process args_ab disk))"
    by simp
  moreover have "snd (process args_ab disk_strict) = Inl AppendError"
    by (simp add: process_strict)
  ultimately show ?thesis using o by simp
qed


subsection \<open>Status lines\<close>

lemma status_lag_append:
  "status_lag k fr (a @ b) = (status_lag k fr a \<and> status_lag (k + length (appended a)) fr b)"
  by (induction k fr a rule: status_lag.induct) auto

lemma last_status_append: "last_status t0 (a @ b) = last_status (last_status t0 a) b"
  by (induction t0 a rule: last_status.induct) auto

lemma spaced_append:
  "spaced S t0 (a @ b) = (spaced S t0 a \<and> spaced S (last_status t0 a) b)"
  by (induction S t0 a rule: spaced.induct) auto

lemma status_step_status:
  assumes "status_step cfg fr st ct s = (ev, r)"
  shows "status_lag (Suc (total_image_count s)) fr ev"
    and "spaced (real_of_int (the (status cfg))) (last_status_time s - st) ev"
    and "case r of Inr s' \<Rightarrow> last_status_time s' - st = last_status (last_status_time s - st) ev
                         \<and> total_image_count s' = total_image_count s
         | Inl _ \<Rightarrow> True"
    and "\<not> truthy (status cfg) \<Longrightarrow> filter is_status ev = []"
  using assms by (auto simp: status_step_def split: if_splits)

lemma preview_step_status:
  assumes "preview_step cfg fr f s = (ev, r)"
  shows "status_lag k fr ev" and "spaced S t0 ev" and "last_status t0 ev = t0"
    and "filter is_status ev = []" and "appended ev = []"
    and "case r of Inr s' \<Rightarrow> s' = s | Inl _ \<Rightarrow> True"
  using assms by (auto simp: preview_step_def split: if_splits)


lemma plain_events:
  assumes "\<forall>e\<in>set ev. \<not> is_status e \<and> \<not> is_append e"
  shows "status_lag k fr ev" and "spaced S t0 ev" and "last_status t0 ev = t0"
    and "filter is_status ev = []" and "appended ev = []"
proof -
  have "status_lag k fr ev \<and> spaced S t0 ev \<and> last_status t0 ev = t0 \<and>
        filter is_status ev = [] \<and> appended ev = []"
    using assms
  proof (induction ev)
    case Nil
    then show ?case by simp
  next
    case (Cons e ev)
    then have rest: "status_lag k fr ev \<and> spaced S t0 ev \<and> last_status t0 ev = t0 \<and>
        filter is_status ev = [] \<and> appended ev = []"
      and e: "\<not> is_status e" "\<not> is_append e"
      by simp_all
    show ?case
    proof (cases e)
      case (Iprint i)
      with e rest show ?thesis by (cases i) simp_all
    qed (use e rest in simp_all)
  qed
  then show "status_lag k fr ev" and "spaced S t0 ev" and "last_status t0 ev = t0"
    and "filter is_status ev = []" and "appended ev = []"
    by simp_all
qed

lemma status_inv_Nil: "status_inv cfg fr st s [] (Inr s)"
  by (simp add: status_inv_def)

lemma status_inv_seq:
  assumes "status_inv cfg fr st s ev1 (Inr s1)" and "status_inv cfg fr st s1 ev2 r"
  shows "status_inv cfg fr st s (ev1 @ ev2) r"
  using assms
  by (auto simp: status_inv_def status_lag_append spaced_append last_status_append
        appended_append split: sum.splits)

lemma status_inv_error:
  assumes "status_inv cfg fr st s ev r"
  shows "status_inv cfg fr st s ev (Inl e)"
  using assms by (simp add: status_inv_def)

lemma status_inv_plain:
  assumes "\<forall>e\<in>set ev. \<not> is_status e \<and> \<not> is_append e"
    and "case r of Inr s' \<Rightarrow> last_status_time s' = last_status_time s \<and>
                            total_image_count s' = total_image_count s
         | Inl _ \<Rightarrow> True"
  shows "status_inv cfg fr st s ev r"
  using assms(2) plain_events [OF assms(1)]
  by (auto simp: status_inv_def split: sum.splits)

lemma frame_step_status:
  assumes "frame_step cfg w fr st s f = (ev, r)"
  shows "status_inv cfg fr st s ev r"
proof (cases "append_ok w (written s) f")
  case False
  with assms show ?thesis by (auto simp: frame_step_def status_inv_def)
next
  case True
  let ?s1 = "s\<lparr>written := written s @ [f], ticks := Suc (ticks s)\<rparr>"
  obtain ev1 r1 where a: "status_step cfg fr st (perf_counter w (ticks s)) ?s1 = (ev1, r1)"
    by (cases "status_step cfg fr st (perf_counter w (ticks s)) ?s1")
  note st1 = status_step_status [OF a]
  from a have ap1: "appended ev1 = []"
    by (auto simp: status_step_def split: if_splits)
  show ?thesis
  proof (cases r1)
    case (Inl e)
    with assms True a have "ev = AppendData f # ev1" "r = Inl e"
      by (auto simp: frame_step_def Let_def)
    with st1(1,2,4) show ?thesis by (auto simp: status_inv_def)
  next
    case (Inr s2)
    obtain ev2 r2 where b: "preview_step cfg fr f s2 = (ev2, r2)"
      by (cases "preview_step cfg fr f s2")
    note pv = preview_step_status [OF b]
    from assms True a Inr b have ev: "ev = AppendData f # ev1 @ ev2"
      and r: "r = (case r2 of Inl e \<Rightarrow> Inl e
                    | Inr s3 \<Rightarrow> Inr (s3\<lparr>total_image_count := Suc (total_image_count s3)\<rparr>))"
      by (auto simp: frame_step_def Let_def split: sum.splits)
    from st1(1,2,3,4) Inr pv ev r ap1 show ?thesis
      by (auto simp: status_inv_def status_lag_append spaced_append last_status_append
            appended_append split: sum.splits)
  qed
qed

lemma read_frames_status:
  "read_frames cfg w fr st s fs = (ev, r) \<Longrightarrow> status_inv cfg fr st s ev r"
proof (induction fs arbitrary: s ev r)
  case Nil
  then show ?case by (auto simp: status_inv_Nil)
next
  case (Cons f fs)
  obtain ev1 r1 where step: "frame_step cfg w fr st s f = (ev1, r1)"
    by (cases "frame_step cfg w fr st s f")
  show ?case
  proof (cases r1)
    case (Inl e)
    with Cons.prems step frame_step_status [OF step] show ?thesis by auto
  next
    case (Inr s1)
    obtain ev2 r2 where rest: "read_frames cfg w fr st s1 fs = (ev2, r2)"
      by (cases "read_frames cfg w fr st s1 fs")
    with Cons.prems step Inr have "ev = ev1 @ ev2" "r = r2" by simp_all
    with frame_step_status [OF step] Inr Cons.IH [OF rest] show ?thesis
      by (auto intro: status_inv_seq)
  qed
qed

lemma read_file_status:
  assumes "read_file cfg w fr st s p = (ev, r)"
  shows "status_inv cfg fr st s ev r"
proof (cases "get_reader w p")
  case None
  with assms show ?thesis by (auto simp: read_file_def intro!: status_inv_plain)
next
  case (Some src)
  obtain ev1 r1 where fr: "read_frames cfg w fr st s (frames src) = (ev1, r1)"
    by (cases "read_frames cfg w fr st s (frames src)")
  have pre: "status_inv cfg fr st s [Iprint (Reading p), ReaderOpened p] (Inr s)"
    by (rule status_inv_plain) simp_all
  from status_inv_seq [OF pre read_frames_status [OF fr]]
  have mid: "status_inv cfg fr st s (Iprint (Reading p) # ReaderOpened p # ev1) r1"
    by simp
  show ?thesis
  proof (cases r1)
    case (Inl e)
    with assms Some fr mid show ?thesis by (simp add: read_file_def)
  next
    case (Inr s1)
    show ?thesis
    proof (cases "corrupt src")
      case True
      with assms Some fr Inr status_inv_error [OF mid] show ?thesis
        by (auto simp: read_file_def)
    next
      case False
      have cl: "status_inv cfg fr st s1 [ReaderClose p] (Inr s1)"
        by (rule status_inv_plain) simp_all
      from mid Inr
      have mid': "status_inv cfg fr st s (Iprint (Reading p) # ReaderOpened p # ev1) (Inr s1)"
        by simp
      from status_inv_seq [OF mid' cl] assms Some fr Inr False show ?thesis
        by (auto simp: read_file_def)
    qed
  qed
qed

lemma read_files_status:
  "read_files cfg w fr st s ps = (ev, r) \<Longrightarrow> status_inv cfg fr st s ev r"
proof (induction ps arbitrary: s ev r)
  case Nil
  then show ?case by (auto simp: status_inv_Nil)
next
  case (Cons p ps)
  obtain ev1 r1 where one: "read_file cfg w fr st s p = (ev1, r1)"
    by (cases "read_file cfg w fr st s p")
  show ?case
  proof (cases r1)
    case (Inl e)
    with Cons.prems one read_file_status [OF one] show ?thesis by auto
  next
    case (Inr s1)
    obtain ev2 r2 where rest: "read_files cfg w fr st s1 ps = (ev2, r2)"
      by (cases "read_files cfg w fr st s1 ps")
    with Cons.prems one Inr have "ev = ev1 @ ev2" "r = r2" by simp_all
    with read_file_status [OF one] Inr Cons.IH [OF rest] show ?thesis
      by (auto intro: status_inv_seq)
  qed
qed

lemma probe_plain: "probe cfg w = (ev, r) \<Longrightarrow> \<forall>e\<in>set ev. \<not> is_status e \<and> \<not> is_append e"
  by (auto simp: probe_def split: list.splits option.splits if_splits)

lemma report_params_plain:
  "\<forall>e\<in>set (report_params cfg prm @ [open_writer cfg prm]). \<not> is_status e \<and> \<not> is_append e"
  by (simp add: report_params_def open_writer_def)

lemma finish_plain: "finish w st s = (ev, r) \<Longrightarrow> \<forall>e\<in>set ev. \<not> is_status e \<and> \<not> is_append e"
  by (auto simp: finish_def Let_def split: if_splits)

text \<open>
  The status lines of any run of \<open>process\<close>, finished or aborted: each one reports one
  frame less than were appended before it, and its time is that count divided by the
  framerate; each comes more than the interval after the one before, the first more than
  the interval after the start; there is none when the interval is absent or zero.
\<close>

lemma process_status_lines:
  assumes "process cfg w = (tr, r)" and "probe cfg w = (ev0, Inr prm)"
  shows "status_lag 0 (p_framerate prm) tr"
    and "spaced (real_of_int (the (status cfg))) 0 tr"
    and "truthy (status cfg) \<or> filter is_status tr = []"
proof -
  let ?st = "perf_counter w 0"
  let ?s0 = "\<lparr>total_image_count = 0, last_status_time = ?st, ticks = 1, written = []\<rparr>"
  let ?fr = "p_framerate prm"
  let ?head = "ev0 @ report_params cfg prm @ [open_writer cfg prm]"
  obtain ev1 r1 where
    rf: "read_files cfg w ?fr ?st ?s0 (input_files cfg) = (ev1, r1)"
    by (cases "read_files cfg w ?fr ?st ?s0 (input_files cfg)")
  have head: "status_inv cfg ?fr ?st ?s0 ?head (Inr ?s0)"
    using probe_plain [OF assms(2)] report_params_plain [of cfg prm]
    by (intro status_inv_plain) auto
  have nostat: "status_inv cfg ?fr ?st ?s0 (ev0 @ report_params cfg prm) (Inl e)" for e
    using probe_plain [OF assms(2)] report_params_plain [of cfg prm]
    by (intro status_inv_plain) auto
  have loop: "status_inv cfg ?fr ?st ?s0 (?head @ ev1) r1"
    using head read_files_status [OF rf] by (rule status_inv_seq)
  have "status_inv cfg ?fr ?st ?s0 tr r"
  proof (cases "get_writer w (output_file cfg)")
    case False
    with assms nostat show ?thesis by (auto simp: process_def Let_def)
  next
    case True
    show ?thesis
    proof (cases r1)
      case (Inl e)
      with assms True rf loop show ?thesis by (auto simp: process_def Let_def)
    next
      case (Inr s1)
      obtain ev2 r2 where fi: "finish w ?st s1 = (ev2, r2)" by (cases "finish w ?st s1")
      have "status_inv cfg ?fr ?st s1 ev2 (Inl ZeroDivisionError)"
        using finish_plain [OF fi] by (intro status_inv_plain) auto
      then have "status_inv cfg ?fr ?st s1 ev2 r2"
        using fi finish_plain [OF fi]
        by (cases r2) (auto simp: status_inv_def finish_def Let_def split: if_splits)
      then have fin: "status_inv cfg ?fr ?st s1 ev2 r2" .
      from loop Inr have loop': "status_inv cfg ?fr ?st ?s0 (?head @ ev1) (Inr s1)"
        by simp
      from status_inv_seq [OF loop' fin] assms True rf Inr fi show ?thesis
        by (auto simp: process_def Let_def)
    qed
  qed
  then show "status_lag 0 ?fr tr" and "spaced (real_of_int (the (status cfg))) 0 tr"
    and "truthy (status cfg) \<or> filter is_status tr = []"
    by (simp_all add: status_inv_def)
qed

text \<open>
  Claim C4 does not hold of the code.  By \<open>process_status_lines\<close> the status lines are
  spaced as claimed and there is none when the interval is absent or zero; but
  \<open>parse_arguments\<close> asserts that the framerate and the preview interval are positive
  and not that the status interval is, and line 153 tests the interval for truth only.
  With \<open>-s -1\<close>, and a clock that lets an interval of one second print nothing, a
  status line is printed after every frame.
\<close>

theorem negative_status_interval_prints_status:
  "status args_neg = Some (- 1) \<and> parse_arguments args_neg = Inr () \<and>
   filter is_status (fst (main (args_neg\<lparr>status := Some 1\<rparr>) disk_fast)) = [] \<and>
   filter is_status (fst (main args_neg disk_fast)) =
     [Iprint (Status (1 / 100) 0 0), Iprint (Status (2 / 100) 1 (1 / 30)),
      Iprint (Status (3 / 100) 2 (2 / 30)), Iprint (Status (4 / 100) 3 (3 / 30)),
      Iprint (Status (5 / 100) 4 (4 / 30))] \<and>
   printed args_neg (filter is_status (fst (main args_neg disk_fast))) =
     [Status (1 / 100) 0 0, Status (2 / 100) 1 (1 / 30),
      Status (3 / 100) 2 (2 / 30), Status (4 / 100) 3 (3 / 30),
      Status (5 / 100) 4 (4 / 30)]"
  by (simp add: run_defs input_defs args_neg_def disk_fast_def printed_def)

text \<open>
  Claim C5 does not hold of the code.  The status line of line 154 is formatted before
  the counter is incremented in line 161: the line printed after the first frame was
  appended says that 0 images were processed, the one after the second says 1, and so
  on for every status line of every run (\<open>process_status_lines\<close>).  The duration in
  the line is the reported count divided by the framerate.
\<close>

theorem status_counts_before_increment:
  "filter is_append_or_status (fst (process args_ab disk)) =
     [AppendData 10, Iprint (Status 2 0 0),
      AppendData 11, Iprint (Status 4 1 (1 / 30)),
      AppendData 12, Iprint (Status 6 2 (1 / 15)),
      AppendData 20, Iprint (Status 8 3 (1 / 10)),
      AppendData 21, Iprint (Status 10 4 (2 / 15))]"
  by (simp add: process_ab is_append_or_status_def)

end
